theory Spec2Isabelle
  imports Complex_Main "HOL-Library.Multiset" "HOL-Library.FSet"
begin

section \<open>JavaScript strings and values\<close>

text \<open>
  A JavaScript string is a sequence of UTF-16 code units; a code unit is modelled as a
  natural number. \<open>asc\<close> turns an ASCII literal into such a string.
\<close>

type_synonym jstring = "nat list"

definition asc :: "string \<Rightarrow> jstring" where
  "asc s = map of_char s"

text \<open>
  The white space of \<open>String.prototype.trim\<close> and of the regular expression class
  \<open>\s\<close>: tab, line feed, vertical tab, form feed, carriage return, space, no-break space,
  U+1680, U+2000 to U+200A, U+2028, U+2029, U+202F, U+205F, U+3000 and U+FEFF.
\<close>

definition is_space :: "nat \<Rightarrow> bool" where
  "is_space c = (c = 9 \<or> c = 10 \<or> c = 11 \<or> c = 12 \<or> c = 13 \<or> c = 32 \<or> c = 160
     \<or> c = 5760 \<or> (8192 \<le> c \<and> c \<le> 8202) \<or> c = 8232 \<or> c = 8233 \<or> c = 8239
     \<or> c = 8287 \<or> c = 12288 \<or> c = 65279)"

definition trim :: "jstring \<Rightarrow> jstring" where
  "trim s = rev (dropWhile is_space (rev (dropWhile is_space s)))"

text \<open>
  The values a parsed model answer can hold. A number is a finite double, read as the
  rational it denotes, or an infinity of either sign (\<open>JSON.parse\<close> gives \<open>Infinity\<close>
  on overflow and never \<open>NaN\<close>). An object is its list of own properties; a missing
  property reads as \<open>undefined\<close>, here \<open>None\<close>.
\<close>

datatype json =
    JNull
  | JBool bool
  | JNum rat
  | JInfinity
  | JStr jstring
  | JArr "json list"
  | JObj "(jstring \<times> json) list"

fun field :: "json \<Rightarrow> string \<Rightarrow> json option" where
  "field (JObj kvs) k = map_of kvs (asc k)"
| "field _ k = None"

text \<open>Truthiness of a value that may be \<open>undefined\<close>, as \<open>||\<close> and \<open>Boolean\<close> test it.\<close>

definition truthy :: "json option \<Rightarrow> bool" where
  "truthy v =
     (case v of
        None \<Rightarrow> False
      | Some JNull \<Rightarrow> False
      | Some (JBool b) \<Rightarrow> b
      | Some (JNum r) \<Rightarrow> r \<noteq> 0
      | Some JInfinity \<Rightarrow> True
      | Some (JStr s) \<Rightarrow> s \<noteq> []
      | Some (JArr xs) \<Rightarrow> True
      | Some (JObj kvs) \<Rightarrow> True)"

text \<open>
  \<open>String(v)\<close>: the identity on a string. The platform's rendering of every other value
  (numbers above all) is the parameter \<open>str\<close>.
\<close>

definition js_String :: "(json \<Rightarrow> jstring) \<Rightarrow> json \<Rightarrow> jstring" where
  "js_String str v = (case v of JStr s \<Rightarrow> s | _ \<Rightarrow> str v)"

definition is_digit :: "nat \<Rightarrow> bool" where
  "is_digit c = (48 \<le> c \<and> c \<le> 57)"

definition digits_value :: "jstring \<Rightarrow> nat" where
  "digits_value ds = foldl (\<lambda>n c. 10 * n + (c - 48)) 0 ds"

text \<open>
  \<open>parseInt(s, 10)\<close>: leading white space, an optional sign, then the longest run of
  decimal digits; \<open>None\<close> stands for a result that is not finite (\<open>NaN\<close> when there is
  no digit, an infinity when the digits exceed the range of a double).
\<close>

definition parseInt10 :: "jstring \<Rightarrow> rat option" where
  "parseInt10 s =
     (let t = dropWhile is_space s;
          neg = (t \<noteq> [] \<and> hd t = 45);
          u = (if t \<noteq> [] \<and> (hd t = 45 \<or> hd t = 43) then tl t else t);
          ds = takeWhile is_digit u
      in if ds = [] then None
         else if 2 ^ 1024 \<le> digits_value ds then None
         else Some (if neg then - of_nat (digits_value ds) else of_nat (digits_value ds)))"

text \<open>
  The decimal digits of an integer, with a minus sign when it is negative. It is what
  \<open>String(n)\<close> and a template literal give for a number \<open>n\<close> that is a safe integer (of
  magnitude at most \<open>2^53 - 1\<close>); larger numbers print rounded digits, and exponent
  notation from \<open>10^21\<close> on.
\<close>

fun digits :: "nat \<Rightarrow> jstring" where
  "digits n = (if n < 10 then [48 + n] else digits (n div 10) @ [48 + n mod 10])"

declare digits.simps [simp del]

definition decimal :: "int \<Rightarrow> jstring" where
  "decimal n = (if n < 0 then 45 # digits (nat (- n)) else digits (nat n))"

definition MAX_SAFE_INTEGER :: int where
  "MAX_SAFE_INTEGER = 9007199254740991"

text \<open>
  What the theorems below assume of the platform's \<open>String\<close>, the parameter \<open>str\<close>: a
  number that is a safe integer is rendered as its decimal digits.
\<close>

definition renders_safe_integers :: "(json \<Rightarrow> jstring) \<Rightarrow> bool" where
  "renders_safe_integers str =
     (\<forall>n. \<bar>n\<bar> \<le> MAX_SAFE_INTEGER \<longrightarrow> str (JNum (of_int n)) = decimal n)"

text \<open>
  A rendering of numbers for the examples: the decimal digits of a safe integer, and
  \<open>1e+21\<close> for \<open>10^21\<close>, the least number that \<open>String\<close> prints in exponent notation.
  No other value is rendered in the examples.
\<close>

definition example_String :: "json \<Rightarrow> jstring" where
  "example_String v =
     (case v of
        JNum x \<Rightarrow>
          if x = of_int \<lfloor>x\<rfloor> \<and> \<bar>\<lfloor>x\<rfloor>\<bar> \<le> MAX_SAFE_INTEGER then decimal \<lfloor>x\<rfloor>
          else if x = 10 ^ 21 then asc ''1e+21''
          else []
      | _ \<Rightarrow> [])"

section \<open>questionTypes.ts\<close>

record QuestionTypeSettings =
  matchingEnabled :: bool
  matchingQuantity :: int
  selectAllEnabled :: bool
  selectAllQuantity :: int
  fillBlankEnabled :: bool
  fillBlankQuantity :: int
  multipleChoiceEnabled :: bool
  multipleChoiceQuantity :: int
  trueFalseEnabled :: bool
  trueFalseQuantity :: int
  shortLongEnabled :: bool
  shortLongQuantity :: int

record QuestionTypeRegistryEntry =
  enabledToggleKey :: string
  quantityKey :: string
  description :: string
  schemaShape :: string
  typeGuard :: "json \<Rightarrow> bool"

definition MULTIPLE_CHOICE_TOGGLE_KEY :: string where
  "MULTIPLE_CHOICE_TOGGLE_KEY = ''multipleChoiceEnabled''"

text \<open>\<open>settings[key]\<close> for a toggle key and for a quantity key.\<close>

definition setting_flag :: "QuestionTypeSettings \<Rightarrow> string \<Rightarrow> bool" where
  "setting_flag s k =
     (if k = ''matchingEnabled'' then matchingEnabled s
      else if k = ''selectAllEnabled'' then selectAllEnabled s
      else if k = ''fillBlankEnabled'' then fillBlankEnabled s
      else if k = ''multipleChoiceEnabled'' then multipleChoiceEnabled s
      else if k = ''trueFalseEnabled'' then trueFalseEnabled s
      else if k = ''shortLongEnabled'' then shortLongEnabled s
      else False)"

definition setting_quantity :: "QuestionTypeSettings \<Rightarrow> string \<Rightarrow> int" where
  "setting_quantity s k =
     (if k = ''matchingQuantity'' then matchingQuantity s
      else if k = ''selectAllQuantity'' then selectAllQuantity s
      else if k = ''fillBlankQuantity'' then fillBlankQuantity s
      else if k = ''multipleChoiceQuantity'' then multipleChoiceQuantity s
      else if k = ''trueFalseQuantity'' then trueFalseQuantity s
      else if k = ''shortLongQuantity'' then shortLongQuantity s
      else 0)"

definition isRecord :: "json \<Rightarrow> bool" where
  "isRecord v = (case v of JArr _ \<Rightarrow> True | JObj _ \<Rightarrow> True | _ \<Rightarrow> False)"

definition isString :: "json option \<Rightarrow> bool" where
  "isString v = (case v of Some (JStr _) \<Rightarrow> True | _ \<Rightarrow> False)"

definition isNumber :: "json option \<Rightarrow> bool" where
  "isNumber v = (case v of Some (JNum _) \<Rightarrow> True | _ \<Rightarrow> False)"

definition isBoolean :: "json option \<Rightarrow> bool" where
  "isBoolean v = (case v of Some (JBool _) \<Rightarrow> True | _ \<Rightarrow> False)"

definition isStringArray :: "json option \<Rightarrow> bool" where
  "isStringArray v =
     (case v of Some (JArr xs) \<Rightarrow> list_all (\<lambda>x. isString (Some x)) xs | _ \<Rightarrow> False)"

definition isNumberArray :: "json option \<Rightarrow> bool" where
  "isNumberArray v =
     (case v of Some (JArr xs) \<Rightarrow> list_all (\<lambda>x. isNumber (Some x)) xs | _ \<Rightarrow> False)"

definition isMatchingQuestion :: "json \<Rightarrow> bool" where
  "isMatchingQuestion v =
     (if \<not> isRecord v then False
      else if \<not> isString (field v ''prompt'') then False
      else (case field v ''pairs'' of
              Some (JArr ps) \<Rightarrow>
                if length ps = 0 then False
                else list_all (\<lambda>pair. if \<not> isRecord pair then False
                        else isString (field pair ''left'') \<and> isString (field pair ''right'')) ps
            | _ \<Rightarrow> False))"

definition isSelectAllQuestion :: "json \<Rightarrow> bool" where
  "isSelectAllQuestion v =
     (if \<not> isRecord v then False
      else isString (field v ''q'') \<and> isStringArray (field v ''choices'')
        \<and> isNumberArray (field v ''correct_indexes'')
        \<and> (case field v ''correct_indexes'' of Some (JArr xs) \<Rightarrow> length xs > 0 | _ \<Rightarrow> False))"

definition isFillBlankQuestion :: "json \<Rightarrow> bool" where
  "isFillBlankQuestion v =
     (if \<not> isRecord v then False
      else isString (field v ''q'') \<and> isString (field v ''answer''))"

definition isMultipleChoiceQuestion :: "json \<Rightarrow> bool" where
  "isMultipleChoiceQuestion v =
     (if \<not> isRecord v then False
      else isString (field v ''q'') \<and> isStringArray (field v ''choices'')
        \<and> isNumber (field v ''answer_index''))"

definition isTrueFalseQuestion :: "json \<Rightarrow> bool" where
  "isTrueFalseQuestion v =
     (if \<not> isRecord v then False
      else isString (field v ''q'') \<and> isBoolean (field v ''answer''))"

definition isShortLongAnswerQuestion :: "json \<Rightarrow> bool" where
  "isShortLongAnswerQuestion v =
     (if \<not> isRecord v then False
      else isString (field v ''q'') \<and> isString (field v ''ideal_answer'')
        \<and> isString (field v ''grading_criteria''))"

definition matchingEntry :: QuestionTypeRegistryEntry where
  "matchingEntry = \<lparr>enabledToggleKey = ''matchingEnabled'', quantityKey = ''matchingQuantity'',
     description = ''Matching (pair terms with definitions)'', schemaShape =
       ''{ \"prompt\": string, \"pairs\": [ { \"left\": string, \"right\": string } ], \"explanation\": string }'',
     typeGuard = isMatchingQuestion\<rparr>"

definition selectAllEntry :: QuestionTypeRegistryEntry where
  "selectAllEntry = \<lparr>enabledToggleKey = ''selectAllEnabled'', quantityKey = ''selectAllQuantity'',
     description = ''Select All (multiple correct choices)'', schemaShape =
       ''{ \"q\": string, \"choices\": string[], \"correct_indexes\": number[], \"explanation\": string }'',
     typeGuard = isSelectAllQuestion\<rparr>"

definition fillBlankEntry :: QuestionTypeRegistryEntry where
  "fillBlankEntry = \<lparr>enabledToggleKey = ''fillBlankEnabled'', quantityKey = ''fillBlankQuantity'',
     description = ''Fill in the Blank (short text answer)'', schemaShape =
       ''{ \"q\": string, \"answer\": string, \"explanation\": string }'',
     typeGuard = isFillBlankQuestion\<rparr>"

definition multipleChoiceEntry :: QuestionTypeRegistryEntry where
  "multipleChoiceEntry = \<lparr>enabledToggleKey = ''multipleChoiceEnabled'',
     quantityKey = ''multipleChoiceQuantity'',
     description = ''Multiple Choice (single correct choice)'',
     schemaShape =
       ''{ \"q\": string, \"choices\": string[], \"answer_index\": number, \"explanation\": string }'',
     typeGuard = isMultipleChoiceQuestion\<rparr>"

definition trueFalseEntry :: QuestionTypeRegistryEntry where
  "trueFalseEntry = \<lparr>enabledToggleKey = ''trueFalseEnabled'', quantityKey = ''trueFalseQuantity'',
     description = ''True/False'', schemaShape =
       ''{ \"q\": string, \"answer\": boolean, \"explanation\": string }'',
     typeGuard = isTrueFalseQuestion\<rparr>"

definition shortLongEntry :: QuestionTypeRegistryEntry where
  "shortLongEntry = \<lparr>enabledToggleKey = ''shortLongEnabled'', quantityKey = ''shortLongQuantity'',
     description = ''Short/Long Answer (graded response)'',
     schemaShape =
       ''{ \"q\": string, \"ideal_answer\": string, \"grading_criteria\": string, \"explanation\": string }'',
     typeGuard = isShortLongAnswerQuestion\<rparr>"

definition questionTypeRegistry :: "QuestionTypeRegistryEntry list" where
  "questionTypeRegistry =
     [matchingEntry, selectAllEntry, fillBlankEntry, multipleChoiceEntry, trueFalseEntry,
      shortLongEntry]"

definition DEFAULT_QUESTION_TYPE_SETTINGS :: QuestionTypeSettings where
  "DEFAULT_QUESTION_TYPE_SETTINGS =
     \<lparr>matchingEnabled = False, matchingQuantity = 0,
      selectAllEnabled = False, selectAllQuantity = 0,
      fillBlankEnabled = False, fillBlankQuantity = 0,
      multipleChoiceEnabled = True, multipleChoiceQuantity = 10,
      trueFalseEnabled = False, trueFalseQuantity = 0,
      shortLongEnabled = False, shortLongQuantity = 0\<rparr>"

section \<open>The plan builder\<close>

text \<open>
  The settings of the vault, as far as the functions modelled here read them; the question
  type settings may be absent in a stored vault, and the code then takes the defaults.
\<close>

record Settings =
  endpoint :: jstring
  model :: jstring
  temperature :: rat
  maxTokens :: int
  customInstructions :: jstring
  questionTypeSettings :: "QuestionTypeSettings option"

text \<open>
  \<open>clampInt\<close>: the value is rendered by \<open>String\<close> and read back by \<open>parseInt\<close>; when
  that is not finite the fallback is returned, else the integer read is clamped. (A parse
  beyond \<open>2^53\<close> is rounded to a double before the clamp, which no clamp between safe
  bounds can tell.)
\<close>

definition clampInt :: "(json \<Rightarrow> jstring) \<Rightarrow> json \<Rightarrow> int \<Rightarrow> int \<Rightarrow> int \<Rightarrow> int" where
  "clampInt str n mn mx fallback =
     (case parseInt10 (js_String str n) of
        None \<Rightarrow> fallback
      | Some x \<Rightarrow> max mn (min mx \<lfloor>x\<rfloor>))"

record QuestionTypePlanEntry =
  entry :: QuestionTypeRegistryEntry
  quantity :: int

definition buildQuestionTypePlan ::
  "(json \<Rightarrow> jstring) \<Rightarrow> Settings \<Rightarrow> int \<Rightarrow> QuestionTypePlanEntry list" where
  "buildQuestionTypePlan str settings totalCount =
     (let qts = (case questionTypeSettings settings of
                   Some s \<Rightarrow> s | None \<Rightarrow> DEFAULT_QUESTION_TYPE_SETTINGS);
          enabledEntries =
            filter (\<lambda>e. setting_flag qts (enabledToggleKey e)) questionTypeRegistry
      in if length enabledEntries = 0 then
           (case find (\<lambda>e. enabledToggleKey e = MULTIPLE_CHOICE_TOGGLE_KEY) questionTypeRegistry of
              Some fallback \<Rightarrow> [\<lparr>entry = fallback, quantity = totalCount\<rparr>]
            | None \<Rightarrow> [])
         else if length enabledEntries = 1 then
           [\<lparr>entry = enabledEntries ! 0, quantity = totalCount\<rparr>]
         else
           (let plan = filter (\<lambda>item. quantity item > 0)
                  (map (\<lambda>e. \<lparr>entry = e,
                          quantity = clampInt str
                            (JNum (of_int (setting_quantity qts (quantityKey e)))) 0 totalCount 0\<rparr>)
                     enabledEntries)
            in if length plan = 0 then [\<lparr>entry = enabledEntries ! 0, quantity = totalCount\<rparr>]
               else plan))"

definition totalQuestionsFromPlan :: "QuestionTypePlanEntry list \<Rightarrow> int" where
  "totalQuestionsFromPlan plan = foldl (\<lambda>sum item. sum + quantity item) 0 plan"

text \<open>
  The plan as the specification words it: the types flagged true, in registration order,
  and each configured quantity clamped to the interval from 0 to the requested total.
\<close>

definition effective_settings :: "Settings \<Rightarrow> QuestionTypeSettings" where
  "effective_settings settings =
     (case questionTypeSettings settings of
        Some s \<Rightarrow> s | None \<Rightarrow> DEFAULT_QUESTION_TYPE_SETTINGS)"

definition enabled_types :: "Settings \<Rightarrow> QuestionTypeRegistryEntry list" where
  "enabled_types settings =
     [e \<leftarrow> questionTypeRegistry. setting_flag (effective_settings settings) (enabledToggleKey e)]"




text \<open>The settings of the examples: the defaults of the plugin, with two enabled types.\<close>

definition DEFAULT_SETTINGS :: Settings where
  "DEFAULT_SETTINGS =
     \<lparr>endpoint = asc ''https://api.openai.com/v1/responses'', model = asc ''gpt-4.1-mini'',
      temperature = 7 / 10, maxTokens = 6000, customInstructions = [],
      questionTypeSettings = Some DEFAULT_QUESTION_TYPE_SETTINGS\<rparr>"



section \<open>Quiz data and errors\<close>

text \<open>
  The fields of a question. \<open>answer_index\<close> and \<open>user_answer_index\<close> are JavaScript
  numbers, the latter \<open>null\<close> (here \<open>None\<close>) until the user picks. The field \<open>id\<close> is
  named \<open>qid\<close> here.
\<close>

record QuizQuestion =
  qid :: jstring
  q :: jstring
  choices :: "jstring list"
  answer_index :: rat
  explanation :: jstring
  user_answer_index :: "rat option"

text \<open>Every \<open>throw new Error(...)\<close> of the modelled functions, one constructor per message.\<close>

datatype error =
    EmptyModelOutput
  | NotJson
  | TruncatedJson
  | InvalidJson jstring
  | MissingQuestions
  | NoSchemaMatched
  | UnsupportedQuestionType string
  | MissingQuestionText
  | WrongChoiceCount int
  | NoNewQuestions
  | ApiKeyMissing
  | NoQuizLoaded
  | QuizAlreadySubmitted
  | QuestionPlanEmpty
  | SourceFileNotFound
  | NoSourceText
  | RequestFailed jstring

section \<open>The schema matcher and the question normalizer\<close>

definition matchQuestionType :: "json \<Rightarrow> QuestionTypeRegistryEntry option" where
  "matchQuestionType question = find (\<lambda>e. typeGuard e question) questionTypeRegistry"

text \<open>
  \<open>normalizeQuestion\<close>. The fresh identifier that \<open>uid()\<close> draws from the clock and the random
  generator is the parameter \<open>newId\<close>. The answer index is taken as it is when it is a
  finite number and parsed from its string rendering otherwise.
\<close>

definition normalizeQuestion ::
  "(json \<Rightarrow> jstring) \<Rightarrow> jstring \<Rightarrow> json \<Rightarrow> int \<Rightarrow> error + QuizQuestion" where
  "normalizeQuestion str newId question choicesCount =
     (case matchQuestionType question of
        None \<Rightarrow> Inl NoSchemaMatched
      | Some matched \<Rightarrow>
          if enabledToggleKey matched \<noteq> MULTIPLE_CHOICE_TOGGLE_KEY
          then Inl (UnsupportedQuestionType (description matched))
          else
            (let qq = trim (if truthy (field question ''q'')
                            then js_String str (the (field question ''q'')) else []);
                 chs = (case field question ''choices'' of
                          Some (JArr xs) \<Rightarrow>
                            filter (\<lambda>c. c \<noteq> []) (map (\<lambda>x. trim (js_String str x)) xs)
                        | _ \<Rightarrow> []);
                 ai = (case field question ''answer_index'' of
                         Some (JNum r) \<Rightarrow> Some r
                       | Some v \<Rightarrow> parseInt10 (js_String str v)
                       | None \<Rightarrow> parseInt10 (asc ''undefined''))
             in if qq = [] then Inl MissingQuestionText
                else if int (length chs) \<noteq> choicesCount then Inl (WrongChoiceCount choicesCount)
                else
                  (let ai0 = (case ai of Some r \<Rightarrow> r | None \<Rightarrow> 0);
                       ai1 = max 0 (min (of_nat (length chs) - 1) ai0)
                   in Inr \<lparr>qid = newId, q = qq, choices = chs, answer_index = ai1,
                            explanation =
                              trim (if truthy (field question ''explanation'')
                                    then js_String str (the (field question ''explanation''))
                                    else []),
                            user_answer_index = None\<rparr>)))"

text \<open>Two raw records of the multiple-choice shape.\<close>

definition fractional_index_record :: json where
  "fractional_index_record =
     JObj [(asc ''q'', JStr (asc ''Capital of France?'')),
           (asc ''choices'', JArr [JStr (asc ''Rome''), JStr (asc ''Oslo''), JStr (asc ''Paris''),
                                  JStr (asc ''Bern'')]),
           (asc ''answer_index'', JNum (3 / 2))]"

definition answer_and_indexes_record :: json where
  "answer_and_indexes_record =
     JObj [(asc ''q'', JStr (asc ''Capital of France?'')),
           (asc ''choices'', JArr [JStr (asc ''Rome''), JStr (asc ''Paris'')]),
           (asc ''answer_index'', JNum 1),
           (asc ''answer'', JStr (asc ''Paris'')),
           (asc ''correct_indexes'', JArr [JNum 1])]"

definition answer_record :: json where
  "answer_record =
     JObj [(asc ''q'', JStr (asc ''Capital of France?'')),
           (asc ''choices'', JArr [JStr (asc ''Rome''), JStr (asc ''Paris'')]),
           (asc ''answer_index'', JNum 1),
           (asc ''answer'', JStr (asc ''Paris''))]"

section \<open>Double-precision arithmetic\<close>

text \<open>
  JavaScript numbers are IEEE 754 double-precision values. A finite double is read as the
  rational it denotes; \<open>to_double\<close> rounds a rational to the nearest double, ties to the
  even significand, as every arithmetic operation of the language does with its exact
  result. \<open>normalise\<close> scales a positive rational into the interval from
  \<open>2^52 = 4503599627370496\<close> to \<open>2^53 = 9007199254740992\<close>, where the doubles are the
  integers; below \<open>2^-1022\<close> the doubles are the multiples of \<open>2^-1074\<close>. A result at or
  beyond \<open>2^1024 - 2^970\<close> in magnitude overflows to an infinity, which \<open>double_overflow\<close>
  tells and \<open>to_double\<close> leaves to its caller.
\<close>

fun normalise :: "nat \<Rightarrow> rat \<Rightarrow> int \<Rightarrow> rat \<times> int" where
  "normalise n y e =
     (if n = 0 then (y, e)
      else if y < 4503599627370496 then normalise (n - 1) (2 * y) (e - 1)
      else if 9007199254740992 \<le> y then normalise (n - 1) (y / 2) (e + 1)
      else (y, e))"

declare normalise.simps [simp del]

definition round_half_even :: "rat \<Rightarrow> int" where
  "round_half_even y =
     (let f = \<lfloor>y\<rfloor>; d = y - of_int f
      in if d < 1 / 2 then f else if 1 / 2 < d then f + 1
         else if even f then f else f + 1)"

definition pow2 :: "int \<Rightarrow> rat" where
  "pow2 k = (if 0 \<le> k then 2 ^ nat k else 1 / 2 ^ nat (- k))"

definition to_double :: "rat \<Rightarrow> rat" where
  "to_double x =
     (if x = 0 then 0
      else if \<bar>x\<bar> < 1 / 2 ^ 1022
        then (if x < 0 then - 1 else 1) * of_int (round_half_even (\<bar>x\<bar> * 2 ^ 1074)) / 2 ^ 1074
      else (case normalise 2200 \<bar>x\<bar> 0 of
              (y, e) \<Rightarrow> (if x < 0 then - 1 else 1) * of_int (round_half_even y) * pow2 e))"

definition double_overflow :: "rat \<Rightarrow> bool" where
  "double_overflow x = (2 ^ 1024 - 2 ^ 970 \<le> \<bar>x\<bar>)"

text \<open>\<open>Math.round\<close>: the nearest integer, a tie going up.\<close>

definition Math_round :: "rat \<Rightarrow> int" where
  "Math_round y = \<lfloor>y + 1 / 2\<rfloor>"

section \<open>Quizzes and the grading engine\<close>

record PerQuestion =
  isAnswered :: bool
  isCorrect :: bool
  ua :: "rat option"
  ca :: rat

record Grade =
  total :: nat
  answered :: nat
  correct :: nat
  accuracyTotal :: int
  accuracyAnswered :: int
  per :: "PerQuestion list"

datatype Difficulty = easy | medium | hard | very_hard

text \<open>The field \<open>id\<close> of a quiz is named \<open>quiz_id\<close> here; \<open>model\<close> and \<open>temperature\<close>, which
  only travel to the generation service, are left out.\<close>

record Quiz =
  quiz_id :: jstring
  title :: jstring
  sourcePath :: jstring
  sourceText :: "jstring option"
  created_at :: jstring
  updated_at :: jstring
  difficulty :: Difficulty
  choicesCount :: int
  questions :: "QuizQuestion list"
  currentIndex :: int
  submitted :: bool
  submittedAt :: "jstring option"
  grade :: "Grade option"

definition grade_question :: "QuizQuestion \<Rightarrow> PerQuestion" where
  "grade_question qu =
     (let u = user_answer_index qu;
          isAns = (u \<noteq> None);
          isCor = (isAns \<and> u = Some (answer_index qu))
      in \<lparr>isAnswered = isAns, isCorrect = isCor,
          ua = (if isAns then u else None), ca = answer_index qu\<rparr>)"

text \<open>
  \<open>computeGrade\<close>. The callback of \<open>map\<close> counts the answered and the correct questions
  while it builds the per-question list; the percentages are
  \<open>Math.round((correct / answered) * 100)\<close> and \<open>Math.round((correct / total) * 100)\<close>, a
  double division followed by a double multiplication.
\<close>

definition computeGrade :: "Quiz \<Rightarrow> Grade" where
  "computeGrade quiz =
     (let tot = length (questions quiz);
          pers = map grade_question (questions quiz);
          ans = length (filter isAnswered pers);
          cor = length (filter isCorrect pers);
          accA = (if ans \<noteq> 0
                  then Math_round (to_double (to_double (of_nat cor / of_nat ans) * 100)) else 0);
          accT = (if tot \<noteq> 0
                  then Math_round (to_double (to_double (of_nat cor / of_nat tot) * 100)) else 0)
      in \<lparr>total = tot, answered = ans, correct = cor, accuracyTotal = accT,
          accuracyAnswered = accA, per = pers\<rparr>)"

text \<open>Round-half-up of an exact percentage, as the specification words the rounding.\<close>

definition round_half_up :: "rat \<Rightarrow> int" where
  "round_half_up x = \<lfloor>x + 1 / 2\<rfloor>"

definition answered_question :: "rat \<Rightarrow> rat option \<Rightarrow> QuizQuestion" where
  "answered_question a u =
     \<lparr>qid = asc ''qz_1'', q = asc ''Question?'',
      choices = [asc ''one'', asc ''two'', asc ''three'', asc ''four''],
      answer_index = a, explanation = [], user_answer_index = u\<rparr>"

definition quiz_of :: "QuizQuestion list \<Rightarrow> Quiz" where
  "quiz_of qs =
     \<lparr>quiz_id = asc ''qz_0'', title = asc ''Quiz'', sourcePath = [], sourceText = Some (asc ''text''),
      created_at = [], updated_at = [], difficulty = medium, choicesCount = 4, questions = qs,
      currentIndex = 0, submitted = False, submittedAt = None, grade = None\<rparr>"

text \<open>A quiz of 40 answered questions, 23 of them answered correctly.\<close>

definition quiz_23_of_40 :: Quiz where
  "quiz_23_of_40 =
     quiz_of (replicate 23 (answered_question 2 (Some 2)) @ replicate 17 (answered_question 2 (Some 0)))"

text \<open>A quiz of 5 questions, 3 of them answered and 2 answered correctly.\<close>

definition quiz_2_of_3_of_5 :: Quiz where
  "quiz_2_of_3_of_5 =
     quiz_of [answered_question 2 (Some 2), answered_question 1 (Some 1),
              answered_question 0 (Some 3), answered_question 3 None, answered_question 1 None]"

section \<open>The deduplicator\<close>

text \<open>
  \<open>String.prototype.toLowerCase\<close> on code units. The code units whose lower-case form holds
  an ASCII letter are the capitals A to Z, U+0130 (an \<open>i\<close> followed by U+0307) and the Kelvin
  sign U+212A (a \<open>k\<close>). Any other code unit with a lower-case form of its own maps outside
  ASCII; it is left as it is here, since \<open>normText\<close> turns the one like the other into a blank.
\<close>

definition lower_unit :: "nat \<Rightarrow> jstring" where
  "lower_unit c =
     (if 65 \<le> c \<and> c \<le> 90 then [c + 32]
      else if c = 304 then [105, 775]
      else if c = 8490 then [107]
      else [c])"

definition toLowerCase :: "jstring \<Rightarrow> jstring" where
  "toLowerCase s = concat (map lower_unit s)"

text \<open>The characters of the class \<open>[a-z0-9 ]\<close>.\<close>

definition plain_char :: "nat \<Rightarrow> bool" where
  "plain_char c = ((97 \<le> c \<and> c \<le> 122) \<or> (48 \<le> c \<and> c \<le> 57) \<or> c = 32)"

text \<open>\<open>replace(/\s+/g, " ")\<close>: every maximal run of white space becomes one blank.\<close>

function collapse_ws :: "jstring \<Rightarrow> jstring" where
  "collapse_ws [] = []"
| "collapse_ws (c # cs) =
     (if is_space c then 32 # collapse_ws (dropWhile is_space cs) else c # collapse_ws cs)"
  by pat_completeness auto
termination
  by (relation "measure length") (auto simp: le_imp_less_Suc length_dropWhile_le)

definition normText :: "jstring \<Rightarrow> jstring" where
  "normText s =
     trim (collapse_ws (map (\<lambda>c. if plain_char c then c else 32) (toLowerCase s)))"

text \<open>\<open>s.split(d)\<close> for a one-character separator: the empty string splits into one empty
  piece.\<close>

fun split_on :: "nat \<Rightarrow> jstring \<Rightarrow> jstring list" where
  "split_on d [] = [[]]"
| "split_on d (c # cs) =
     (if c = d then [] # split_on d cs
      else (case split_on d cs of w # ws \<Rightarrow> (c # w) # ws | [] \<Rightarrow> [[c]]))"

definition tokenSet :: "jstring \<Rightarrow> jstring fset" where
  "tokenSet s = fset_of_list (filter (\<lambda>w. length w \<ge> 3) (split_on 32 (normText s)))"

text \<open>
  \<open>jaccard\<close>. The quotient is a double division of two set sizes and the threshold in
  \<open>isNearDuplicate\<close> the double nearest to 0.72. Division is correctly rounded and rounding
  is monotone, and a quotient of naturals \<open>i / u\<close> other than \<open>18 / 25\<close> is at least
  \<open>1 / (25 u)\<close> away from it, far more than the spacing \<open>2^-53\<close> of the doubles there for any
  set a program can hold; so the comparison of the doubles is the comparison of the exact
  quotient with \<open>72 / 100\<close>, which the model makes.
\<close>

definition jaccard :: "jstring fset \<Rightarrow> jstring fset \<Rightarrow> rat" where
  "jaccard a b =
     (if fcard a = 0 \<or> fcard b = 0 then 0
      else (let inter = fcard (ffilter (\<lambda>x. x |\<in>| b) a);
                uni = fcard a + fcard b - inter
            in if uni \<noteq> 0 then of_nat inter / of_nat uni else 0))"

definition isNearDuplicate :: "jstring \<Rightarrow> jstring fset \<Rightarrow> jstring fset list \<Rightarrow> bool" where
  "isNearDuplicate qText existing existingTokenSets =
     (let n = normText qText
      in if n = [] then True
         else if n |\<in>| existing then True
         else list_ex (\<lambda>ex. 72 / 100 \<le> jaccard (tokenSet n) ex) existingTokenSets)"

text \<open>The Jaccard similarity of two finite sets, 0 for two empty sets.\<close>

definition jaccard_similarity :: "jstring fset \<Rightarrow> jstring fset \<Rightarrow> rat" where
  "jaccard_similarity a b =
     (if a |\<union>| b = {||} then 0
      else of_nat (fcard (a |\<inter>| b)) / of_nat (fcard (a |\<union>| b)))"

text \<open>The words of at least three characters of a normalized text.\<close>

definition long_words :: "jstring \<Rightarrow> jstring fset" where
  "long_words n = fset_of_list [w \<leftarrow> split_on 32 n. 3 \<le> length w]"

text \<open>A normalized text: only characters of \<open>[a-z0-9 ]\<close>, no blank at either end and no two
  blanks in a row.\<close>

fun no_double_blank :: "jstring \<Rightarrow> bool" where
  "no_double_blank (a # b # cs) = (\<not> (a = 32 \<and> b = 32) \<and> no_double_blank (b # cs))"
| "no_double_blank cs = True"

definition normalized :: "jstring \<Rightarrow> bool" where
  "normalized n =
     (list_all plain_char n \<and> (n \<noteq> [] \<longrightarrow> hd n \<noteq> 32 \<and> last n \<noteq> 32) \<and> no_double_blank n)"

section \<open>The randomizer\<close>

text \<open>
  \<open>Math.random()\<close> is modelled by the sequence \<open>rnd\<close> of the values it returns, each in the
  interval from 0 (included) to 1 (excluded), and by the position \<open>k\<close> of the next value;
  a function that draws random numbers returns the new position with its result.
  \<open>shuffle_from\<close> is the loop of \<open>shuffleInPlace\<close> from index \<open>i\<close> downwards.
\<close>

fun shuffle_from :: "(nat \<Rightarrow> rat) \<Rightarrow> nat \<Rightarrow> nat \<Rightarrow> 'a list \<Rightarrow> 'a list \<times> nat" where
  "shuffle_from rnd k i arr =
     (if i = 0 then (arr, k)
      else (let j = nat \<lfloor>rnd k * of_nat (i + 1)\<rfloor>
            in shuffle_from rnd (k + 1) (i - 1) (arr[i := arr ! j, j := arr ! i])))"

declare shuffle_from.simps [simp del]

definition shuffleInPlace :: "(nat \<Rightarrow> rat) \<Rightarrow> nat \<Rightarrow> 'a list \<Rightarrow> 'a list \<times> nat" where
  "shuffleInPlace rnd k arr = shuffle_from rnd k (length arr - 1) arr"

text \<open>\<open>Array.prototype.findIndex\<close>: the first index whose element satisfies the predicate,
  or -1.\<close>

fun findIndex :: "('a \<Rightarrow> bool) \<Rightarrow> 'a list \<Rightarrow> int" where
  "findIndex P [] = - 1"
| "findIndex P (x # xs) =
     (if P x then 0 else (let r = findIndex P xs in if r < 0 then - 1 else r + 1))"

definition randomizeQuestionChoices ::
  "(nat \<Rightarrow> rat) \<Rightarrow> nat \<Rightarrow> QuizQuestion \<Rightarrow> QuizQuestion \<times> nat" where
  "randomizeQuestionChoices rnd k qu =
     (let pairs = zip (choices qu) [0 ..< length (choices qu)];
          (shuffled, k') = shuffleInPlace rnd k pairs;
          newChoices = map fst shuffled;
          newAnswerIndex = findIndex (\<lambda>p. of_nat (snd p) = answer_index qu) shuffled;
          newUserIndex =
            (case user_answer_index qu of
               None \<Rightarrow> None
             | Some u \<Rightarrow> Some (of_int (findIndex (\<lambda>p. of_nat (snd p) = u) shuffled)))
      in (qu\<lparr>choices := newChoices, answer_index := of_int (max 0 newAnswerIndex),
               user_answer_index := newUserIndex\<rparr>, k'))"

fun map_randomize ::
  "(nat \<Rightarrow> rat) \<Rightarrow> nat \<Rightarrow> QuizQuestion list \<Rightarrow> QuizQuestion list \<times> nat" where
  "map_randomize rnd k [] = ([], k)"
| "map_randomize rnd k (qu # qs) =
     (let (qu', k1) = randomizeQuestionChoices rnd k qu;
          (qs', k2) = map_randomize rnd k1 qs
      in (qu' # qs', k2))"

definition randomizeQuestions ::
  "(nat \<Rightarrow> rat) \<Rightarrow> nat \<Rightarrow> QuizQuestion list \<Rightarrow> QuizQuestion list \<times> nat" where
  "randomizeQuestions rnd k qs =
     (let (qs', k') = map_randomize rnd k qs in shuffleInPlace rnd k' qs')"

text \<open>A random sequence inside the unit interval, and the four-choice question of the
  specification's test, whose correct answer is "Paris" at index 2.\<close>

definition example_rnd :: "nat \<Rightarrow> rat" where
  "example_rnd n = of_nat (n * 3 mod 7) / 7"

definition paris_question :: QuizQuestion where
  "paris_question =
     \<lparr>qid = asc ''qz_1'', q = asc ''Capital of France?'',
      choices = [asc ''Rome'', asc ''Oslo'', asc ''Paris'', asc ''Bern''],
      answer_index = 2, explanation = [], user_answer_index = Some 0\<rparr>"

text \<open>
  The postcondition of the randomizer for a question \<open>qu\<close> and its shuffled form \<open>qu'\<close>:
  an answer index that points at a choice of \<open>qu\<close> is moved to an index of \<open>qu'\<close> that
  holds the same text; so is a user answer index, and an absent one stays absent; the
  choices are the same up to order and the other fields are untouched.
\<close>

definition correct_choice_kept :: "QuizQuestion \<Rightarrow> QuizQuestion \<Rightarrow> bool" where
  "correct_choice_kept qu qu' =
     ((\<forall>a. answer_index qu = of_nat a \<and> a < length (choices qu) \<longrightarrow>
         (\<exists>a'. answer_index qu' = of_nat a' \<and> a' < length (choices qu')
               \<and> choices qu' ! a' = choices qu ! a))
    \<and> ((user_answer_index qu' = None) = (user_answer_index qu = None))
    \<and> (\<forall>u. user_answer_index qu = Some (of_nat u) \<and> u < length (choices qu) \<longrightarrow>
         (\<exists>u'. user_answer_index qu' = Some (of_nat u') \<and> u' < length (choices qu')
               \<and> choices qu' ! u' = choices qu ! u))
    \<and> mset (choices qu') = mset (choices qu)
    \<and> qid qu' = qid qu \<and> q qu' = q qu \<and> explanation qu' = explanation qu)"

section \<open>The JSON recovery parser\<close>

subsection \<open>The repairs\<close>

text \<open>
  \<open>replace(/```(?:json)?/gi, "")\<close>: every run of three backticks goes, with a \<open>json\<close> in any
  letter case right behind it. Without the \<open>u\<close> flag a code unit beyond ASCII never matches
  an ASCII letter, so the four letters are compared after lowering A to Z.
\<close>

definition lower_ascii :: "nat \<Rightarrow> nat" where
  "lower_ascii c = (if 65 \<le> c \<and> c \<le> 90 then c + 32 else c)"

function strip_fences :: "jstring \<Rightarrow> jstring" where
  "strip_fences [] = []"
| "strip_fences (c # cs) =
     (if take 3 (c # cs) = [96, 96, 96]
      then (if map lower_ascii (take 4 (drop 3 (c # cs))) = [106, 115, 111, 110]
            then strip_fences (drop 7 (c # cs))
            else strip_fences (drop 3 (c # cs)))
      else c # strip_fences cs)"
  by pat_completeness auto
termination
  by (relation "measure length") auto

text \<open>\<open>replace(/```/g, "")\<close>.\<close>

function remove_ticks :: "jstring \<Rightarrow> jstring" where
  "remove_ticks [] = []"
| "remove_ticks (c # cs) =
     (if take 3 (c # cs) = [96, 96, 96] then remove_ticks (drop 3 (c # cs))
      else c # remove_ticks cs)"
  by pat_completeness auto
termination
  by (relation "measure length") auto

text \<open>The curly double quotes U+201C and U+201D become \<open>"\<close>, the curly single quotes
  U+2018 and U+2019 become \<open>'\<close>.\<close>

definition straighten_double :: "nat \<Rightarrow> nat" where
  "straighten_double c = (if c = 8220 \<or> c = 8221 then 34 else c)"

definition straighten_single :: "nat \<Rightarrow> nat" where
  "straighten_single c = (if c = 8216 \<or> c = 8217 then 39 else c)"

text \<open>
  \<open>replace(/}\s*\n\s*\{/g, "},{")\<close> and \<open>replace(/\]\s*\n\s*\[/g, "],[")\<close>, for a closer \<open>cl\<close>
  and an opener \<open>op\<close>: the closer, a run of white space that holds a line feed, and the
  opener become closer, comma, opener. The run is the longest one, since the opener is no
  white space; the search goes on behind the opener.
\<close>

function join_gap :: "nat \<Rightarrow> nat \<Rightarrow> jstring \<Rightarrow> jstring" where
  "join_gap cl op [] = []"
| "join_gap cl op (c # cs) =
     (if c = cl \<and> 10 \<in> set (takeWhile is_space cs)
         \<and> dropWhile is_space cs \<noteq> [] \<and> hd (dropWhile is_space cs) = op
      then cl # 44 # op # join_gap cl op (tl (dropWhile is_space cs))
      else c # join_gap cl op cs)"
  by pat_completeness auto
termination
  by (relation "measure (\<lambda>(cl, op, s). length s)")
     (auto simp: le_imp_less_Suc length_dropWhile_le less_Suc_eq_le diff_le_mono
           intro: le_trans [OF diff_le_self])

text \<open>\<open>replace(/,\s*([}\]])/g, "$1")\<close>: a comma followed, white space apart, by a closer
  goes together with the white space.\<close>

function strip_trailing_commas :: "jstring \<Rightarrow> jstring" where
  "strip_trailing_commas [] = []"
| "strip_trailing_commas (c # cs) =
     (if c = 44 \<and> dropWhile is_space cs \<noteq> []
         \<and> (hd (dropWhile is_space cs) = 125 \<or> hd (dropWhile is_space cs) = 93)
      then hd (dropWhile is_space cs) # strip_trailing_commas (tl (dropWhile is_space cs))
      else c # strip_trailing_commas cs)"
  by pat_completeness auto
termination
  by (relation "measure length")
     (auto simp: le_imp_less_Suc length_dropWhile_le less_Suc_eq_le
           intro: le_trans [OF diff_le_self])

definition repairJsonCommon :: "jstring \<Rightarrow> jstring" where
  "repairJsonCommon s =
     trim (strip_trailing_commas (join_gap 93 91 (join_gap 125 123
       (map straighten_single (map straighten_double (remove_ticks (strip_fences s)))))))"

subsection \<open>The bracket scanners\<close>

text \<open>The loop of \<open>findLastBalancedJsonEnd\<close> at index \<open>i\<close>, on the characters from \<open>i\<close> on.\<close>

fun balanced_loop ::
  "nat \<Rightarrow> bool \<Rightarrow> bool \<Rightarrow> int \<Rightarrow> nat option \<Rightarrow> jstring \<Rightarrow> nat option" where
  "balanced_loop i inStr esc depth lastEnd [] = lastEnd"
| "balanced_loop i inStr esc depth lastEnd (ch # rest) =
     (if inStr then
        (if esc then balanced_loop (i + 1) inStr False depth lastEnd rest
         else if ch = 92 then balanced_loop (i + 1) inStr True depth lastEnd rest
         else if ch = 34 then balanced_loop (i + 1) False esc depth lastEnd rest
         else balanced_loop (i + 1) inStr esc depth lastEnd rest)
      else if ch = 34 then balanced_loop (i + 1) True esc depth lastEnd rest
      else if ch = 123 \<or> ch = 91 then balanced_loop (i + 1) inStr esc (depth + 1) lastEnd rest
      else if ch = 125 \<or> ch = 93
        then balanced_loop (i + 1) inStr esc (depth - 1)
               (if depth - 1 = 0 then Some i else lastEnd) rest
      else balanced_loop (i + 1) inStr esc depth lastEnd rest)"

definition findLastBalancedJsonEnd :: "jstring \<Rightarrow> nat \<Rightarrow> nat option" where
  "findLastBalancedJsonEnd s start = balanced_loop start False False 0 None (drop start s)"

text \<open>The loop of \<open>looksTruncatedJson\<close>; it returns the depth it ends with.\<close>

fun truncated_loop :: "bool \<Rightarrow> bool \<Rightarrow> int \<Rightarrow> jstring \<Rightarrow> int" where
  "truncated_loop inStr esc depth [] = depth"
| "truncated_loop inStr esc depth (ch # rest) =
     (if inStr then
        (if esc then truncated_loop inStr False depth rest
         else if ch = 92 then truncated_loop inStr True depth rest
         else if ch = 34 then truncated_loop False esc depth rest
         else truncated_loop inStr esc depth rest)
      else if ch = 34 then truncated_loop True esc depth rest
      else if ch = 123 \<or> ch = 91 then truncated_loop inStr esc (depth + 1) rest
      else if ch = 125 \<or> ch = 93 then truncated_loop inStr esc (depth - 1) rest
      else truncated_loop inStr esc depth rest)"

text \<open>\<open>/[}\]]\s*$/.test(t)\<close>: a closer with nothing but white space behind it.\<close>

definition ends_with_closer :: "jstring \<Rightarrow> bool" where
  "ends_with_closer t =
     (let r = dropWhile is_space (rev t) in r \<noteq> [] \<and> (hd r = 125 \<or> hd r = 93))"

definition looksTruncatedJson :: "jstring \<Rightarrow> bool" where
  "looksTruncatedJson s =
     (let t = trim s
      in if t = [] then True
         else if \<not> ends_with_closer t then True
         else truncated_loop False False 0 t \<noteq> 0)"

subsection \<open>\<open>safeParseJson\<close>\<close>

text \<open>
  \<open>JSON.parse\<close> is the parameter \<open>parse\<close>: it returns the parsed value or the message of
  the \<open>SyntaxError\<close> it throws. \<open>String(e?.message || e || ...)\<close> is that message, or the
  rendering \<open>SyntaxError\<close> of the error object when the message is empty.
\<close>

definition error_text :: "jstring \<Rightarrow> jstring" where
  "error_text m = (if m \<noteq> [] then m else asc ''SyntaxError'')"

definition slice :: "jstring \<Rightarrow> nat \<Rightarrow> nat \<Rightarrow> jstring" where
  "slice s from to = take (to - from) (drop from s)"

definition safeParseJson :: "(jstring \<Rightarrow> jstring + json) \<Rightarrow> jstring \<Rightarrow> error + json" where
  "safeParseJson parse text =
     (let raw = trim text
      in if raw = [] then Inl EmptyModelOutput
         else
           (let cleaned = repairJsonCommon raw
            in case parse cleaned of
                 Inr v \<Rightarrow> Inr v
               | Inl _ \<Rightarrow>
                   (let ob = findIndex (\<lambda>c. c = 123) cleaned;
                        ab = findIndex (\<lambda>c. c = 91) cleaned;
                        start = (if ob \<ge> 0 \<and> (ab < 0 \<or> ob < ab) then ob else ab)
                    in if start < 0 then Inl NotJson
                       else
                         (let last_try =
                                (let tail = repairJsonCommon (drop (nat start) cleaned)
                                 in case parse tail of
                                      Inr v \<Rightarrow> Inr v
                                    | Inl m \<Rightarrow>
                                        if looksTruncatedJson tail then Inl TruncatedJson
                                        else Inl (InvalidJson (error_text m)))
                          in case findLastBalancedJsonEnd cleaned (nat start) of
                               None \<Rightarrow> last_try
                             | Some end \<Rightarrow>
                                 (case parse (repairJsonCommon (slice cleaned (nat start) (end + 1))) of
                                    Inr v \<Rightarrow> Inr v
                                  | Inl _ \<Rightarrow> last_try)))))"

subsection \<open>A model of \<open>JSON.parse\<close>\<close>

text \<open>
  The closed examples below need a concrete \<open>JSON.parse\<close>. \<open>json_parse\<close> follows the JSON
  grammar of ECMA-404: white space is space, tab, line feed and carriage return; a string
  holds no control character and the escapes \<open>\" \\ \/ \b \f \n \r \t \uXXXX\<close>; a number is
  an optional minus, an integer part without a leading zero, an optional fraction and an
  optional exponent, rounded to a double. A repeated key of an object keeps its first
  place and takes the last value. The text of the \<open>SyntaxError\<close> is the engine's own; one
  fixed text stands for it. The recursion is bounded by a fuel of twice the length of the
  text and two more, since every call consumes a character; \<open>json_parse\<close> reports a
  parse that ran out of fuel apart from a syntax error.
\<close>

definition json_ws :: "nat \<Rightarrow> bool" where
  "json_ws c = (c = 32 \<or> c = 9 \<or> c = 10 \<or> c = 13)"

definition hexval :: "nat \<Rightarrow> nat option" where
  "hexval c =
     (if 48 \<le> c \<and> c \<le> 57 then Some (c - 48)
      else if 97 \<le> c \<and> c \<le> 102 then Some (c - 87)
      else if 65 \<le> c \<and> c \<le> 70 then Some (c - 55)
      else None)"

function str_body :: "jstring \<Rightarrow> jstring \<Rightarrow> (jstring \<times> jstring) option" where
  "str_body acc [] = None"
| "str_body acc (c # cs) =
     (if c = 34 then Some (rev acc, cs)
      else if c = 92 then
        (case cs of
           [] \<Rightarrow> None
         | e # r \<Rightarrow>
             if e = 34 \<or> e = 92 \<or> e = 47 then str_body (e # acc) r
             else if e = 98 then str_body (8 # acc) r
             else if e = 102 then str_body (12 # acc) r
             else if e = 110 then str_body (10 # acc) r
             else if e = 114 then str_body (13 # acc) r
             else if e = 116 then str_body (9 # acc) r
             else if e = 117 then
               (case those (map hexval (take 4 r)) of
                  Some [h1, h2, h3, h4] \<Rightarrow>
                    str_body ((((h1 * 16 + h2) * 16 + h3) * 16 + h4) # acc) (drop 4 r)
                | _ \<Rightarrow> None)
             else None)
      else if c < 32 then None
      else str_body (c # acc) cs)"
  by pat_completeness auto
termination
  by (relation "measure (\<lambda>(acc, s). length s)") auto

definition json_number :: "jstring \<Rightarrow> (json \<times> jstring) option" where
  "json_number s =
     (let neg = (s \<noteq> [] \<and> hd s = 45);
          s1 = (if neg then tl s else s);
          ds = takeWhile is_digit s1;
          ip = (if ds \<noteq> [] \<and> hd ds = 48 then [48] else ds);
          r1 = drop (length ip) s1;
          hasfrac = (r1 \<noteq> [] \<and> hd r1 = 46);
          fd = (if hasfrac then takeWhile is_digit (tl r1) else []);
          r2 = (if hasfrac then drop (length fd) (tl r1) else r1);
          hasexp = (r2 \<noteq> [] \<and> (hd r2 = 101 \<or> hd r2 = 69));
          r3 = (if hasexp then tl r2 else r2);
          eneg = (hasexp \<and> r3 \<noteq> [] \<and> hd r3 = 45);
          r4 = (if hasexp \<and> r3 \<noteq> [] \<and> (hd r3 = 45 \<or> hd r3 = 43) then tl r3 else r3);
          ed = (if hasexp then takeWhile is_digit r4 else []);
          r5 = (if hasexp then drop (length ed) r4 else r2);
          m = of_nat (digits_value ip) + of_nat (digits_value fd) / 10 ^ length fd;
          v = (if eneg then m / 10 ^ digits_value ed else m * 10 ^ digits_value ed)
      in if ip = [] \<or> (hasfrac \<and> fd = []) \<or> (hasexp \<and> ed = []) then None
         else Some (if double_overflow v then JInfinity
                    else JNum (to_double (if neg then - v else v)), r5))"

definition set_member :: "(jstring \<times> json) list \<Rightarrow> jstring \<Rightarrow> json \<Rightarrow> (jstring \<times> json) list" where
  "set_member kvs k v =
     (if k \<in> fst ` set kvs then map (\<lambda>(k', v'). if k' = k then (k', v) else (k', v')) kvs
      else kvs @ [(k, v)])"

datatype presult = POk json jstring | PFail | PFuel

fun parse_value :: "nat \<Rightarrow> jstring \<Rightarrow> presult"
  and parse_elements :: "nat \<Rightarrow> json list \<Rightarrow> jstring \<Rightarrow> presult"
  and parse_members :: "nat \<Rightarrow> (jstring \<times> json) list \<Rightarrow> jstring \<Rightarrow> presult" where
  "parse_value fuel s =
     (if fuel = 0 then PFuel
      else
        (case dropWhile json_ws s of
           [] \<Rightarrow> PFail
         | c # cs \<Rightarrow>
             if c = 123 then
               (case dropWhile json_ws cs of
                  [] \<Rightarrow> PFail
                | c2 # r \<Rightarrow> if c2 = 125 then POk (JObj []) r
                            else parse_members (fuel - 1) [] (c2 # r))
             else if c = 91 then
               (case dropWhile json_ws cs of
                  [] \<Rightarrow> PFail
                | c2 # r \<Rightarrow> if c2 = 93 then POk (JArr []) r
                            else parse_elements (fuel - 1) [] (c2 # r))
             else if c = 34 then
               (case str_body [] cs of Some (str, r) \<Rightarrow> POk (JStr str) r | None \<Rightarrow> PFail)
             else if take 4 (c # cs) = [116, 114, 117, 101] then POk (JBool True) (drop 4 (c # cs))
             else if take 5 (c # cs) = [102, 97, 108, 115, 101]
               then POk (JBool False) (drop 5 (c # cs))
             else if take 4 (c # cs) = [110, 117, 108, 108] then POk JNull (drop 4 (c # cs))
             else if c = 45 \<or> is_digit c then
               (case json_number (c # cs) of Some (v, r) \<Rightarrow> POk v r | None \<Rightarrow> PFail)
             else PFail))"
| "parse_elements fuel acc s =
     (if fuel = 0 then PFuel
      else
        (case parse_value (fuel - 1) s of
           POk v r \<Rightarrow>
             (case dropWhile json_ws r of
                [] \<Rightarrow> PFail
              | c # r' \<Rightarrow> if c = 44 then parse_elements (fuel - 1) (acc @ [v]) r'
                          else if c = 93 then POk (JArr (acc @ [v])) r'
                          else PFail)
         | PFail \<Rightarrow> PFail
         | PFuel \<Rightarrow> PFuel))"
| "parse_members fuel acc s =
     (if fuel = 0 then PFuel
      else
        (case dropWhile json_ws s of
           [] \<Rightarrow> PFail
         | c # cs \<Rightarrow>
             if c \<noteq> 34 then PFail
             else
               (case str_body [] cs of
                  None \<Rightarrow> PFail
                | Some (k, r) \<Rightarrow>
                    (case dropWhile json_ws r of
                       [] \<Rightarrow> PFail
                     | c2 # r2 \<Rightarrow>
                         if c2 \<noteq> 58 then PFail
                         else
                           (case parse_value (fuel - 1) r2 of
                              POk v r3 \<Rightarrow>
                                (case dropWhile json_ws r3 of
                                   [] \<Rightarrow> PFail
                                 | c3 # r4 \<Rightarrow>
                                     if c3 = 44
                                       then parse_members (fuel - 1) (set_member acc k v) r4
                                     else if c3 = 125 then POk (JObj (set_member acc k v)) r4
                                     else PFail)
                            | PFail \<Rightarrow> PFail
                            | PFuel \<Rightarrow> PFuel)))))"

declare parse_value.simps [simp del] parse_elements.simps [simp del] parse_members.simps [simp del]

definition JSON_SYNTAX_ERROR :: jstring where
  "JSON_SYNTAX_ERROR = asc ''Unexpected token in JSON''"

definition JSON_OUT_OF_FUEL :: jstring where
  "JSON_OUT_OF_FUEL = asc ''out of fuel''"

definition json_parse :: "jstring \<Rightarrow> jstring + json" where
  "json_parse s =
     (case parse_value (2 * length s + 2) s of
        POk v r \<Rightarrow> if dropWhile json_ws r = [] then Inr v else Inl JSON_SYNTAX_ERROR
      | PFail \<Rightarrow> Inl JSON_SYNTAX_ERROR
      | PFuel \<Rightarrow> Inl JSON_OUT_OF_FUEL)"

subsection \<open>The scan as the specification describes it\<close>

text \<open>
  The scanner tracks whether it is inside a quoted string, whether the last character was
  an escaping backslash, and the nesting depth, which goes up on an opener and down on a
  closer outside strings.
\<close>

type_synonym scan_state = "bool \<times> bool \<times> int"

fun scan_step :: "scan_state \<Rightarrow> nat \<Rightarrow> scan_state" where
  "scan_step (inStr, esc, d) ch =
     (if inStr then
        (if esc then (inStr, False, d)
         else if ch = 92 then (inStr, True, d)
         else if ch = 34 then (False, esc, d)
         else (inStr, esc, d))
      else if ch = 34 then (True, esc, d)
      else if ch = 123 \<or> ch = 91 then (inStr, esc, d + 1)
      else if ch = 125 \<or> ch = 93 then (inStr, esc, d - 1)
      else (inStr, esc, d))"

definition bracket_depth :: "jstring \<Rightarrow> int" where
  "bracket_depth t = snd (snd (foldl scan_step (False, False, 0) t))"

definition lacks_trailing_closer :: "jstring \<Rightarrow> bool" where
  "lacks_trailing_closer t = (t = [] \<or> (last t \<noteq> 125 \<and> last t \<noteq> 93))"

text \<open>Index \<open>j\<close> of \<open>t\<close> holds a closer outside strings that brings the depth, counted by a
  scan of \<open>t\<close> that starts in state \<open>st\<close>, to exactly zero.\<close>

definition zero_at :: "scan_state \<Rightarrow> jstring \<Rightarrow> nat \<Rightarrow> bool" where
  "zero_at st t j =
     (case foldl scan_step st (take j t) of
        (inStr, esc, d) \<Rightarrow> \<not> inStr \<and> (t ! j = 125 \<or> t ! j = 93) \<and> d - 1 = 0)"

definition closes_to_zero :: "jstring \<Rightarrow> nat \<Rightarrow> nat \<Rightarrow> bool" where
  "closes_to_zero s start i =
     (start \<le> i \<and> i < length s \<and> zero_at (False, False, 0) (drop start s) (i - start))"

text \<open>The first and the last index from \<open>start\<close> on at which the depth returns to zero.\<close>

definition first_balanced_end :: "jstring \<Rightarrow> nat \<Rightarrow> nat option" where
  "first_balanced_end s start =
     (case filter (closes_to_zero s start) [start ..< length s] of
        [] \<Rightarrow> None | i # _ \<Rightarrow> Some i)"

definition last_balanced_end :: "jstring \<Rightarrow> nat \<Rightarrow> nat option" where
  "last_balanced_end s start =
     (case filter (closes_to_zero s start) [start ..< length s] of
        [] \<Rightarrow> None | i # is \<Rightarrow> Some (last (i # is)))"

text \<open>The index of the first \<open>{\<close> or \<open>[\<close>.\<close>

definition first_open :: "jstring \<Rightarrow> nat option" where
  "first_open s =
     (let i = findIndex (\<lambda>c. c = 123 \<or> c = 91) s in if i < 0 then None else Some (nat i))"

text \<open>The text in which two top-level objects follow each other, and a truncated one.\<close>

definition two_objects :: jstring where
  "two_objects = asc ''{\"a\":1} {\"b\":2}''"

definition truncated_answer :: jstring where
  "truncated_answer = asc ''{\"title\":\"t\",\"questions\":[{\"q\":\"x\"''"

text \<open>An answer wrapped in commentary.\<close>

definition wrapped_answer :: jstring where
  "wrapped_answer = asc ''Answer: {\"a\":1} done''"

subsection \<open>Texts the repairs leave alone\<close>

text \<open>
  The places at which the repairs rewrite a text: a code fence (three backticks), a closer
  and an opener with a line feed in the white space between them, and a comma with a closer
  behind it, white space apart. \<open>free_in M s t\<close> says that no place of \<open>s\<close>, read with \<open>t\<close>
  behind it, is such a place.
\<close>

definition fence_at :: "jstring \<Rightarrow> bool" where
  "fence_at t = (take 3 t = [96, 96, 96])"

definition gap_at :: "nat \<Rightarrow> nat \<Rightarrow> jstring \<Rightarrow> bool" where
  "gap_at cl op t =
     (t \<noteq> [] \<and> hd t = cl \<and> 10 \<in> set (takeWhile is_space (tl t))
      \<and> dropWhile is_space (tl t) \<noteq> [] \<and> hd (dropWhile is_space (tl t)) = op)"

definition comma_at :: "jstring \<Rightarrow> bool" where
  "comma_at t =
     (t \<noteq> [] \<and> hd t = 44 \<and> dropWhile is_space (tl t) \<noteq> []
      \<and> (hd (dropWhile is_space (tl t)) = 125 \<or> hd (dropWhile is_space (tl t)) = 93))"

fun free_in :: "(jstring \<Rightarrow> bool) \<Rightarrow> jstring \<Rightarrow> jstring \<Rightarrow> bool" where
  "free_in M [] t = True"
| "free_in M (x # xs) t = (\<not> M (x # xs @ t) \<and> free_in M xs t)"

definition curly_quote :: "nat \<Rightarrow> bool" where
  "curly_quote c = (c = 8220 \<or> c = 8221 \<or> c = 8216 \<or> c = 8217)"

text \<open>
  A text the repairs leave alone: it holds no code fence, no curly quote, no closer and
  opener with only a line break between them and no comma before a closer, and it neither
  begins nor ends with white space.
\<close>

definition untouched_by_repair :: "jstring \<Rightarrow> bool" where
  "untouched_by_repair r =
     (r \<noteq> [] \<and> \<not> is_space (hd r) \<and> \<not> is_space (last r)
      \<and> free_in fence_at r [] \<and> list_all (\<lambda>c. \<not> curly_quote c) r
      \<and> free_in (gap_at 125 123) r [] \<and> free_in (gap_at 93 91) r []
      \<and> free_in comma_at r [])"

text \<open>
  The three wrappings of the round-trip property. A text between code fences; a text in
  which curly double quotes stand for some or all of the straight ones; a text with a stray
  comma right before a closer is written out where it is used.
\<close>

definition with_fences :: "jstring \<Rightarrow> jstring" where
  "with_fences r = asc ''```json'' @ [10] @ r @ [10] @ asc ''```''"

definition curly_of :: "jstring \<Rightarrow> jstring \<Rightarrow> bool" where
  "curly_of r r' = list_all2 (\<lambda>c c'. c' = c \<or> (c = 34 \<and> (c' = 8220 \<or> c' = 8221))) r r'"

text \<open>The rendering of the string \<open>a,]\<close> and of an object that holds an array.\<close>

definition comma_bracket_string :: jstring where
  "comma_bracket_string = asc ''\"a,]\"''"

definition small_object :: jstring where
  "small_object = asc ''{\"a\":[1,2]}''"

definition small_object_curly :: jstring where
  "small_object_curly = asc ''{'' @ [8220] @ asc ''a'' @ [8221] @ asc '':[1,2]}''"

section \<open>The prompts and the request\<close>

text \<open>\<open>Array.prototype.join\<close> with a one-character separator.\<close>

fun join_with :: "nat \<Rightarrow> jstring list \<Rightarrow> jstring" where
  "join_with sep [] = []"
| "join_with sep [x] = x"
| "join_with sep (x # y # rest) = x @ sep # join_with sep (y # rest)"

definition difficultySpec :: "Difficulty \<Rightarrow> jstring" where
  "difficultySpec level =
     (case level of
        easy \<Rightarrow> join_with 10
          [asc ''EASY SPEC:'',
           asc ''- Direct recall; no inference.'',
           asc ''- For choice-based items, distractors are obviously wrong.'',
           asc ''- For non-choice items, answers are short and explicit.'']
      | hard \<Rightarrow> join_with 10
          [asc ''HARD SPEC:'',
           asc ''- Requires inference/connecting ideas.'',
           asc ''- For choice-based items, distractors are plausible but false per text.'',
           asc ''- For non-choice items, include a clear textual anchor in the answer.'']
      | very_hard \<Rightarrow> join_with 10
          [asc ''VERY HARD SPEC:'',
           asc ''- Multi-step reasoning; connect distant parts.'',
           asc ''- For choice-based items, distractors are highly plausible.'',
           asc ''- Keep correct selections unambiguous and cite the textual clue in the explanation.'']
      | medium \<Rightarrow> join_with 10
          [asc ''MEDIUM SPEC:'',
           asc ''- Understanding + paraphrase + cause/effect.'',
           asc ''- For choice-based items, distractors are plausible but not tricky.'',
           asc ''- For non-choice items, answers should be concise.''])"

text \<open>\<open>systemPrompt\<close>; its optional argument is \<open>None\<close> when the caller passes none.\<close>

definition systemPrompt :: "jstring option \<Rightarrow> jstring" where
  "systemPrompt instructions =
     (let base = join_with 32
            [asc ''You generate quizzes using the requested question types.'',
             asc ''Output ONLY valid json.'',
             asc ''No markdown. No commentary.'',
             asc ''Use ONLY the provided source text.'',
             asc ''Follow the question schemas provided in the user prompt.''];
          extra = trim (case instructions of Some c \<Rightarrow> c | None \<Rightarrow> [])
      in if extra = [] then base
         else base @ asc '' '' @ asc ''Additional instructions (must not override rules): '' @ extra)"

text \<open>
  \<open>generateUserPrompt\<close>. A number in a template literal is rendered by \<open>String\<close>;
  \<open>filter(Boolean)\<close> drops the empty lines. The callers modelled here pass the custom
  instructions and the questions to avoid, so both are plain arguments.
\<close>

definition generateUserPrompt ::
  "(json \<Rightarrow> jstring) \<Rightarrow> jstring \<Rightarrow> jstring \<Rightarrow> QuestionTypePlanEntry list \<Rightarrow> Difficulty \<Rightarrow> int
     \<Rightarrow> jstring \<Rightarrow> jstring list \<Rightarrow> jstring" where
  "generateUserPrompt str source ttl plan diff cc instructions avoidQuestions =
     (let totalCount = foldl (\<lambda>sum item. sum + quantity item) 0 plan;
          typeLines = map (\<lambda>item. asc ''- '' @ asc (description (entry item)) @ asc '': ''
                                    @ js_String str (JNum (of_int (quantity item)))) plan;
          schemaLines = map (\<lambda>item. asc ''- '' @ asc (schemaShape (entry item))) plan;
          custom = (instructions \<noteq> [] \<and> trim instructions \<noteq> [])
      in join_with 10 (filter (\<lambda>line. line \<noteq> [])
           ([asc ''Output format: json'',
             asc ''Return a valid json object only.'',
             [],
             difficultySpec diff,
             [],
             asc ''Number of questions: '' @ js_String str (JNum (of_int totalCount)),
             asc ''Choices per question: '' @ js_String str (JNum (of_int cc)),
             (if ttl \<noteq> [] then asc ''Title preference: '' @ ttl else []),
             [],
             asc ''Question type mix (use this exact distribution):'']
            @ typeLines
            @ [[],
               asc ''Question schemas (each question must match one schema):'']
            @ schemaLines
            @ [[],
               asc ''Do not repeat or paraphrase any of these questions (write truly new ones):'']
            @ (if avoidQuestions \<noteq> []
               then map (\<lambda>x. asc ''- '' @ take 280 (js_String str (JStr x))) (take 120 avoidQuestions)
               else [asc ''- (none)''])
            @ [[],
               asc ''REQUIRED JSON SHAPE:'',
               asc ''{ \"title\": string, \"questions\": [ question ] }'',
               [],
               asc ''Rules:'',
               asc ''- If a schema uses choices, choices.length must match choices per question exactly.'',
               asc ''- Choices should be short phrases.'',
               asc ''- Explanation is 1-2 sentences.'',
               [],
               (if custom then asc ''CUSTOM INSTRUCTIONS (rules win if conflict):'' else []),
               (if custom then trim instructions else []),
               [],
               asc ''SOURCE TEXT (only allowed knowledge):'',
               trim source])))"

definition recommendedMaxOutputTokens :: "(json \<Rightarrow> jstring) \<Rightarrow> int \<Rightarrow> int" where
  "recommendedMaxOutputTokens str questionCount =
     (let qc = clampInt str (JNum (of_int questionCount)) 1 60 10;
          est = 900 + qc * 190
      in max 1200 (min 12000 est))"

text \<open>
  \<open>extractOutputText\<close>: the field \<open>output_text\<close> of the response when it is a string that
  is not blank; otherwise the first text that is not blank among the contents of the
  messages of \<open>output\<close>; otherwise the empty string.
\<close>

definition nonblank_string :: "json option \<Rightarrow> bool" where
  "nonblank_string v = (case v of Some (JStr s) \<Rightarrow> trim s \<noteq> [] | _ \<Rightarrow> False)"

definition string_of :: "json option \<Rightarrow> jstring" where
  "string_of v = (case v of Some (JStr s) \<Rightarrow> s | _ \<Rightarrow> [])"

fun content_text :: "json list \<Rightarrow> jstring option" where
  "content_text [] = None"
| "content_text (c # cs) =
     (if field c ''type'' = Some (JStr (asc ''output_text'')) \<and> nonblank_string (field c ''text'')
      then Some (string_of (field c ''text''))
      else if nonblank_string (field c ''text'') then Some (string_of (field c ''text''))
      else content_text cs)"

fun output_text_of :: "json list \<Rightarrow> jstring option" where
  "output_text_of [] = None"
| "output_text_of (item # items) =
     (if field item ''type'' = Some (JStr (asc ''message''))
      then (case field item ''content'' of
              Some (JArr cs) \<Rightarrow>
                (case content_text cs of
                   Some t \<Rightarrow> Some t
                 | None \<Rightarrow> output_text_of items)
            | _ \<Rightarrow> output_text_of items)
      else output_text_of items)"

definition extractOutputText :: "json \<Rightarrow> jstring" where
  "extractOutputText resp =
     (if nonblank_string (field resp ''output_text'') then string_of (field resp ''output_text'')
      else (case field resp ''output'' of
              Some (JArr out) \<Rightarrow> (case output_text_of out of Some t \<Rightarrow> t | None \<Rightarrow> [])
            | _ \<Rightarrow> []))"

text \<open>
  The request of one attempt, as \<open>requestUrl\<close> receives it: the URL, the authorization
  header, and the fields of the body (which the code passes through \<open>JSON.stringify\<close>: the
  model, the system and the user message, the temperature and the token limit). The method
  and the content type are constants.
\<close>

record Request =
  url :: jstring
  authorization :: jstring
  body_model :: jstring
  system_content :: jstring
  user_content :: jstring
  body_temperature :: rat
  max_output_tokens :: int
section \<open>The retry collector\<close>

text \<open>
  The plugin with its vault unlocked (\<open>ensureUnlocked\<close> has left the vault and the password in
  place, so that \<open>saveEncrypted\<close> encrypts and writes): the fields of the plain vault, the
  current quiz id, and \<open>stored\<close>, the quizzes of the vault as last written to disk.
\<close>

record App =
  apiKey :: jstring
  settings :: Settings
  quizzes :: "Quiz list"
  currentQuizId :: "jstring option"
  stored :: "Quiz list"

text \<open>
  What the platform and the collaborators supply: \<open>JSON.parse\<close>; \<open>String\<close> on a value that
  is no string; for the n-th request of a call and the request sent, the error that
  \<open>requestUrl\<close> or the reading of \<open>resp.json\<close> throws, or else the response; for a path,
  whether the vault has a file there and then its content or the error of the read; the
  clock; the values of \<open>Math.random\<close>; the identifier \<open>uid()\<close> returns for the j-th question
  of the n-th response; the error, if any, of the encryption and the write of
  \<open>saveEncrypted\<close>; the error, if any, of rendering the view; and the error, if any, of
  showing a notice.
\<close>

record Env =
  JSON_parse :: "jstring \<Rightarrow> jstring + json"
  String_of :: "json \<Rightarrow> jstring"
  requestUrl :: "nat \<Rightarrow> Request \<Rightarrow> error + json"
  vault_read :: "jstring \<Rightarrow> (error + jstring) option"
  nowISO :: jstring
  Math_random :: "nat \<Rightarrow> rat"
  uid :: "nat \<Rightarrow> nat \<Rightarrow> jstring"
  write_vault :: "App \<Rightarrow> error option"
  view_render :: "App \<Rightarrow> error option"
  Notice :: "jstring \<Rightarrow> error option"

definition getCurrentQuiz :: "App \<Rightarrow> Quiz option \<times> App" where
  "getCurrentQuiz app =
     (let first_id = (case quizzes app of [] \<Rightarrow> None | z # _ \<Rightarrow> Some (quiz_id z));
          i = (case currentQuizId app of
                 Some c \<Rightarrow> if c \<noteq> [] then Some c else first_id
               | None \<Rightarrow> first_id)
      in case i of
           None \<Rightarrow> (None, app)
         | Some i' \<Rightarrow>
             if i' = [] then (None, app)
             else (case find (\<lambda>x. quiz_id x = i') (quizzes app) of
                     None \<Rightarrow> (None, app)
                   | Some z \<Rightarrow> (Some z, app\<lparr>currentQuizId := Some (quiz_id z)\<rparr>)))"

text \<open>The quiz object \<open>getCurrentQuiz\<close> returns is the first of the vault with its id; a
  change to it is a change to that element of \<open>quizzes\<close>.\<close>

fun update_first :: "('a \<Rightarrow> bool) \<Rightarrow> ('a \<Rightarrow> 'a) \<Rightarrow> 'a list \<Rightarrow> 'a list" where
  "update_first P f [] = []"
| "update_first P f (x # xs) = (if P x then f x # xs else x # update_first P f xs)"

definition resolve_source :: "Env \<Rightarrow> Quiz \<Rightarrow> error + jstring" where
  "resolve_source env quiz =
     (if (case sourceText quiz of Some t \<Rightarrow> t \<noteq> [] \<and> trim t \<noteq> [] | None \<Rightarrow> False)
      then Inr (trim (the (sourceText quiz)))
      else if sourcePath quiz \<noteq> [] then
        (case vault_read env (sourcePath quiz) of
           Some (Inr content) \<Rightarrow> Inr (trim content)
         | Some (Inl e) \<Rightarrow> Inl e
         | None \<Rightarrow> Inl SourceFileNotFound)
      else Inl NoSourceText)"

text \<open>
  \<open>saveEncrypted\<close> on the unlocked plugin: the vault is encrypted and written, and an error
  of either is thrown on.
\<close>

definition saveEncrypted :: "Env \<Rightarrow> App \<Rightarrow> error + App" where
  "saveEncrypted env app =
     (case write_vault env app of
        Some e \<Rightarrow> Inl e
      | None \<Rightarrow> Inr (app\<lparr>stored := quizzes app\<rparr>))"

text \<open>The request of an attempt that asks for \<open>reqCount\<close> questions.\<close>

definition build_request ::
  "(json \<Rightarrow> jstring) \<Rightarrow> jstring \<Rightarrow> Settings \<Rightarrow> Quiz \<Rightarrow> jstring \<Rightarrow> jstring list \<Rightarrow> int \<Rightarrow> Request" where
  "build_request str key cfg quiz src existingQuestions reqCount =
     (let reqPlan = buildQuestionTypePlan str cfg reqCount;
          reqTotalQuestions = totalQuestionsFromPlan reqPlan
      in \<lparr>url = endpoint cfg,
          authorization = asc ''Bearer '' @ key,
          body_model = model cfg,
          system_content = systemPrompt None,
          user_content = generateUserPrompt str src (title quiz) reqPlan (difficulty quiz)
                           (choicesCount quiz) (customInstructions cfg) existingQuestions,
          body_temperature = temperature cfg,
          max_output_tokens = max (maxTokens cfg) (recommendedMaxOutputTokens str reqTotalQuestions)\<rparr>)"

definition questions_of :: "json \<Rightarrow> json list" where
  "questions_of parsed = (case field parsed ''questions'' of Some (JArr xs) \<Rightarrow> xs | _ \<Rightarrow> [])"

text \<open>\<open>questionsRaw.map(q => normalizeQuestion(q, choicesCount))\<close>: the first question that
  does not normalize throws. \<open>n\<close> is the number of the response and \<open>j\<close> the index of the
  question.\<close>

fun normalize_all ::
  "Env \<Rightarrow> nat \<Rightarrow> nat \<Rightarrow> int \<Rightarrow> json list \<Rightarrow> error + QuizQuestion list" where
  "normalize_all env n j cc [] = Inr []"
| "normalize_all env n j cc (x # xs) =
     (case normalizeQuestion (String_of env) (uid env n j) x cc of
        Inl e \<Rightarrow> Inl e
      | Inr qu \<Rightarrow>
          (case normalize_all env n (j + 1) cc xs of
             Inl e \<Rightarrow> Inl e
           | Inr qus \<Rightarrow> Inr (qu # qus)))"

record Collected =
  collected :: "QuizQuestion list"
  collectedNorm :: "jstring fset"
  collectedTokenSets :: "jstring fset list"
  next_random :: nat

text \<open>The \<open>for\<close> loop over the normalized questions of one response.\<close>

fun accept_loop ::
  "Env \<Rightarrow> int \<Rightarrow> jstring fset \<Rightarrow> jstring fset list \<Rightarrow> QuizQuestion list \<Rightarrow> Collected
     \<Rightarrow> Collected" where
  "accept_loop env desired existingNorm existingTokenSets [] st = st"
| "accept_loop env desired existingNorm existingTokenSets (qu # rest) st =
     (if int (length (collected st)) \<ge> desired then st
      else if isNearDuplicate (q qu) existingNorm existingTokenSets
        then accept_loop env desired existingNorm existingTokenSets rest st
      else if isNearDuplicate (q qu) (collectedNorm st) (collectedTokenSets st)
        then accept_loop env desired existingNorm existingTokenSets rest st
      else
        (case randomizeQuestionChoices (Math_random env) (next_random st) qu of
           (qu', k') \<Rightarrow>
             accept_loop env desired existingNorm existingTokenSets rest
               \<lparr>collected = collected st @ [qu'],
                collectedNorm = finsert (normText (q qu)) (collectedNorm st),
                collectedTokenSets = collectedTokenSets st @ [tokenSet (q qu)],
                next_random = k'\<rparr>))"

text \<open>
  The \<open>while\<close> loop. It returns the requests it has passed to \<open>requestUrl\<close>, and either the
  error thrown inside the loop or what has been collected.
\<close>

function collect_loop ::
  "Env \<Rightarrow> App \<Rightarrow> Quiz \<Rightarrow> jstring \<Rightarrow> int \<Rightarrow> jstring list \<Rightarrow> jstring fset \<Rightarrow> jstring fset list \<Rightarrow> nat
     \<Rightarrow> Request list \<Rightarrow> Collected \<Rightarrow> Request list \<times> (error + Collected)" where
  "collect_loop env v quiz src desired existingQuestions existingNorm existingTokenSets
       attempts sent st =
     (if int (length (collected st)) < desired \<and> attempts < 3 then
        (let reqCount = min 12 (desired - int (length (collected st)));
             request = build_request (String_of env) (apiKey v) (settings v) quiz src
                         existingQuestions reqCount
         in case requestUrl env (attempts + 1) request of
              Inl e \<Rightarrow> (sent @ [request], Inl e)
            | Inr resp \<Rightarrow>
                (case safeParseJson (JSON_parse env) (extractOutputText resp) of
                   Inl e \<Rightarrow> (sent @ [request], Inl e)
                 | Inr parsed \<Rightarrow>
                     (case normalize_all env (attempts + 1) 0 (choicesCount quiz)
                             (questions_of parsed) of
                        Inl e \<Rightarrow> (sent @ [request], Inl e)
                      | Inr qus \<Rightarrow>
                          collect_loop env v quiz src desired existingQuestions
                            existingNorm existingTokenSets (attempts + 1) (sent @ [request])
                            (accept_loop env desired existingNorm existingTokenSets qus st))))
      else (sent, Inr st))"
  by pat_completeness auto
termination
  by (relation "measure (\<lambda>(env, v, quiz, src, desired, eq, en, et, attempts, sent, st).
        3 - attempts)") auto

declare collect_loop.simps [simp del]

text \<open>The notice of a successful call.\<close>

definition added_notice :: "(json \<Rightarrow> jstring) \<Rightarrow> nat \<Rightarrow> jstring" where
  "added_notice str n =
     asc ''Added '' @ js_String str (JNum (of_nat n)) @ asc '' question''
       @ (if n = 1 then [] else asc ''s'') @ asc ''.''"

text \<open>
  A call: the plugin afterwards, the requests sent, the notice shown, and the error thrown,
  if any.
\<close>

record Run =
  after :: App
  requests :: "Request list"
  notice :: "jstring option"
  failure :: "error option"

definition addMoreQuestionsToCurrentQuiz :: "Env \<Rightarrow> App \<Rightarrow> json \<Rightarrow> Run" where
  "addMoreQuestionsToCurrentQuiz env app cnt =
     (if apiKey app = []
      then \<lparr>after = app, requests = [], notice = None, failure = Some ApiKeyMissing\<rparr>
      else
        (case getCurrentQuiz app of
           (None, app1) \<Rightarrow>
             \<lparr>after = app1, requests = [], notice = None, failure = Some NoQuizLoaded\<rparr>
         | (Some quiz, app1) \<Rightarrow>
             if submitted quiz
             then \<lparr>after = app1, requests = [], notice = None,
                   failure = Some QuizAlreadySubmitted\<rparr>
             else
               (let desired = clampInt (String_of env) cnt 1 50 5;
                    plan = buildQuestionTypePlan (String_of env) (settings app1) desired;
                    totalQuestions = totalQuestionsFromPlan plan
                in if totalQuestions = 0
                   then \<lparr>after = app1, requests = [], notice = None,
                         failure = Some QuestionPlanEmpty\<rparr>
                   else
                     (case resolve_source env quiz of
                        Inl e \<Rightarrow> \<lparr>after = app1, requests = [], notice = None, failure = Some e\<rparr>
                      | Inr src \<Rightarrow>
                          (let existingQuestions = map q (questions quiz);
                               existingNorm = fset_of_list (map normText existingQuestions);
                               existingTokenSets = map tokenSet existingQuestions
                           in case collect_loop env app1 quiz src desired
                                     existingQuestions existingNorm existingTokenSets 0 []
                                     \<lparr>collected = [], collectedNorm = {||},
                                      collectedTokenSets = [], next_random = 0\<rparr> of
                                (sent, Inl e) \<Rightarrow>
                                  \<lparr>after = app1, requests = sent, notice = None,
                                   failure = Some e\<rparr>
                              | (sent, Inr st) \<Rightarrow>
                                  if length (collected st) = 0
                                  then \<lparr>after = app1, requests = sent, notice = None,
                                        failure = Some NoNewQuestions\<rparr>
                                  else
                                    (let shuffled = fst (shuffleInPlace (Math_random env)
                                                           (next_random st) (collected st));
                                         app2 = app1\<lparr>quizzes :=
                                           update_first (\<lambda>x. quiz_id x = quiz_id quiz)
                                             (\<lambda>z. z\<lparr>questions := questions z @ shuffled,
                                                      updated_at := nowISO env\<rparr>)
                                             (quizzes app1)\<rparr>
                                     in case saveEncrypted env app2 of
                                          Inl e \<Rightarrow>
                                            \<lparr>after = app2, requests = sent, notice = None,
                                             failure = Some e\<rparr>
                                        | Inr app3 \<Rightarrow>
                                            (case view_render env app3 of
                                               Some e \<Rightarrow>
                                                 \<lparr>after = app3, requests = sent, notice = None,
                                                  failure = Some e\<rparr>
                                             | None \<Rightarrow>
                                                 (case Notice env (added_notice (String_of env)
                                                                    (length (collected st))) of
                                                    Some e \<Rightarrow>
                                                      \<lparr>after = app3, requests = sent,
                                                       notice = None, failure = Some e\<rparr>
                                                  | None \<Rightarrow>
                                                      \<lparr>after = app3, requests = sent,
                                                       notice = Some (added_notice (String_of env)
                                                                        (length (collected st))),
                                                       failure = None\<rparr>))))))))"

section \<open>The attempts of a call, as the specification words them\<close>

text \<open>
  The request of the attempt made when \<open>st\<close> has been collected: it asks for a batch of
  min(12, remaining) questions, the remaining ones being those still missing from the
  desired count.
\<close>

definition attempt_request :: "Env \<Rightarrow> App \<Rightarrow> Quiz \<Rightarrow> jstring \<Rightarrow> int \<Rightarrow> Collected \<Rightarrow> Request" where
  "attempt_request env app quiz src desired st =
     build_request (String_of env) (apiKey app) (settings app) quiz src (map q (questions quiz))
       (min 12 (desired - int (length (collected st))))"

text \<open>
  Attempt \<open>k + 1\<close> raises \<open>e\<close>: the request does, or the recovery parser does on the text
  of the response, or the normalizer does on a question of the parsed answer.
\<close>

definition attempt_raises ::
  "Env \<Rightarrow> App \<Rightarrow> Quiz \<Rightarrow> jstring \<Rightarrow> int \<Rightarrow> nat \<Rightarrow> Collected \<Rightarrow> error \<Rightarrow> bool" where
  "attempt_raises env app quiz src desired k st e =
     (case requestUrl env (k + 1) (attempt_request env app quiz src desired st) of
        Inl e' \<Rightarrow> e' = e
      | Inr resp \<Rightarrow>
          (case safeParseJson (JSON_parse env) (extractOutputText resp) of
             Inl e' \<Rightarrow> e' = e
           | Inr parsed \<Rightarrow>
               normalize_all env (k + 1) 0 (choicesCount quiz) (questions_of parsed) = Inl e))"

text \<open>
  \<open>attempts_completed env app quiz src desired k st reqs\<close>: the first \<open>k\<close> attempts of a
  call have been made and none has raised; \<open>reqs\<close> are their requests and \<open>st\<close> is what
  has been accepted. An attempt is made only while fewer than the desired count are
  accepted and fewer than 3 attempts have been made; it accepts, of the normalized
  questions of its response, those that repeat neither a question of the quiz nor an
  accepted one, up to the desired count.
\<close>

inductive attempts_completed ::
  "Env \<Rightarrow> App \<Rightarrow> Quiz \<Rightarrow> jstring \<Rightarrow> int \<Rightarrow> nat \<Rightarrow> Collected \<Rightarrow> Request list \<Rightarrow> bool"
  for env :: Env and app :: App and quiz :: Quiz and src :: jstring and desired :: int where
  no_attempt:
    "attempts_completed env app quiz src desired 0
       \<lparr>collected = [], collectedNorm = {||}, collectedTokenSets = [], next_random = 0\<rparr> []"
| one_more:
    "attempts_completed env app quiz src desired k st reqs \<Longrightarrow>
     k < 3 \<Longrightarrow> int (length (collected st)) < desired \<Longrightarrow>
     requestUrl env (k + 1) (attempt_request env app quiz src desired st) = Inr resp \<Longrightarrow>
     safeParseJson (JSON_parse env) (extractOutputText resp) = Inr parsed \<Longrightarrow>
     normalize_all env (k + 1) 0 (choicesCount quiz) (questions_of parsed) = Inr qus \<Longrightarrow>
     attempts_completed env app quiz src desired (k + 1)
       (accept_loop env desired (fset_of_list (map normText (map q (questions quiz))))
          (map tokenSet (map q (questions quiz))) qus st)
       (reqs @ [attempt_request env app quiz src desired st])"

text \<open>
  Two runs of the collector on a quiz of one question, asked for two more. The first
  response brings one new question. In the first run the second response is no JSON; in
  the second run the second and the third response repeat the first.
\<close>

definition planet_answer :: jstring where
  "planet_answer =
     asc ''{\"questions\":[{\"q\":\"Largest planet?\",\"choices\":[\"Mars\",\"Jupiter\",\"Venus\",\"Earth\"],\"answer_index\":1}]}''"

definition planet_response :: json where
  "planet_response = JObj [(asc ''output_text'', JStr planet_answer)]"

definition garbled_response :: json where
  "garbled_response = JObj [(asc ''output_text'', JStr (asc ''not json at all''))]"

definition planet_question :: QuizQuestion where
  "planet_question =
     \<lparr>qid = asc ''qz_new'', q = asc ''Largest planet?'',
      choices = [asc ''Mars'', asc ''Jupiter'', asc ''Venus'', asc ''Earth''],
      answer_index = 1, explanation = [], user_answer_index = None\<rparr>"

definition example_app :: App where
  "example_app =
     \<lparr>apiKey = asc ''sk-test'', settings = DEFAULT_SETTINGS,
      quizzes = [quiz_of [paris_question]], currentQuizId = None,
      stored = [quiz_of [paris_question]]\<rparr>"

definition failing_env :: Env where
  "failing_env =
     \<lparr>JSON_parse = json_parse, String_of = example_String,
      requestUrl = (\<lambda>n request. if n = 1 then Inr planet_response else Inr garbled_response),
      vault_read = (\<lambda>p. None), nowISO = asc ''2024-05-01T00:00:00.000Z'',
      Math_random = example_rnd, uid = (\<lambda>n j. asc ''qz_new''),
      write_vault = (\<lambda>v. None), view_render = (\<lambda>v. None), Notice = (\<lambda>m. None)\<rparr>"

definition repeating_env :: Env where
  "repeating_env = failing_env\<lparr>requestUrl := (\<lambda>n request. Inr planet_response)\<rparr>"

text \<open>The parsed first response, the state of the collector after it, and the requests
  for two questions and for one.\<close>

definition planet_json :: json where
  "planet_json =
     JObj [(asc ''questions'',
            JArr [JObj [(asc ''q'', JStr (asc ''Largest planet?'')),
                        (asc ''choices'',
                         JArr [JStr (asc ''Mars''), JStr (asc ''Jupiter''),
                               JStr (asc ''Venus''), JStr (asc ''Earth'')]),
                        (asc ''answer_index'', JNum 1)]])]"

definition planet_question_shuffled :: QuizQuestion where
  "planet_question_shuffled =
     planet_question\<lparr>choices := [asc ''Earth'', asc ''Venus'', asc ''Jupiter'', asc ''Mars''],
       answer_index := 2\<rparr>"

definition planet_collected :: Collected where
  "planet_collected =
     \<lparr>collected = [planet_question_shuffled],
      collectedNorm = {|asc ''largest planet''|},
      collectedTokenSets = [{|asc ''largest'', asc ''planet''|}],
      next_random = 3\<rparr>"

definition example_request :: "int \<Rightarrow> Request" where
  "example_request reqCount =
     build_request example_String (asc ''sk-test'') DEFAULT_SETTINGS (quiz_of [paris_question])
       (asc ''text'') [asc ''Capital of France?''] reqCount"

text \<open>
  A third run, asked for ten more questions: every response repeats the question the quiz
  already has.
\<close>

definition paris_answer :: jstring where
  "paris_answer =
     asc ''{\"questions\":[{\"q\":\"Capital of France?\",\"choices\":[\"Rome\",\"Oslo\",\"Paris\",\"Bern\"],\"answer_index\":2}]}''"

definition paris_response :: json where
  "paris_response = JObj [(asc ''output_text'', JStr paris_answer)]"

definition paris_json :: json where
  "paris_json =
     JObj [(asc ''questions'',
            JArr [JObj [(asc ''q'', JStr (asc ''Capital of France?'')),
                        (asc ''choices'',
                         JArr [JStr (asc ''Rome''), JStr (asc ''Oslo''),
                               JStr (asc ''Paris''), JStr (asc ''Bern'')]),
                        (asc ''answer_index'', JNum 2)]])]"

definition paris_candidate :: QuizQuestion where
  "paris_candidate = paris_question\<lparr>qid := asc ''qz_new'', user_answer_index := None\<rparr>"

definition duplicating_env :: Env where
  "duplicating_env = failing_env\<lparr>requestUrl := (\<lambda>n request. Inr paris_response)\<rparr>"

section \<open>Properties of the plan builder\<close>

lemma digits_value_snoc: "digits_value (ds @ [c]) = 10 * digits_value ds + (c - 48)"
  by (simp add: digits_value_def)

lemma digits_are_digits: "list_all is_digit (digits n) \<and> digits n \<noteq> []"
proof (induction n rule: digits.induct)
  case (1 n)
  show ?case
  proof (cases "n < 10")
    case True
    then show ?thesis by (subst digits.simps, subst (2) digits.simps) (simp add: is_digit_def)
  next
    case False
    have "n mod 10 < 10" by simp
    then have "is_digit (48 + n mod 10)" by (simp add: is_digit_def)
    with 1 False show ?thesis
      by (subst digits.simps, subst (2) digits.simps) simp
  qed
qed

lemma digits_value_digits: "digits_value (digits n) = n"
proof (induction n rule: digits.induct)
  case (1 n)
  show ?case
  proof (cases "n < 10")
    case True
    then show ?thesis by (subst digits.simps) (simp add: digits_value_def)
  next
    case False
    with 1 show ?thesis
      by (subst digits.simps) (simp add: digits_value_snoc)
  qed
qed

lemma takeWhile_all: "list_all P xs \<Longrightarrow> takeWhile P xs = xs"
  by (induction xs) simp_all

lemma parseInt10_decimal:
  assumes "\<bar>n\<bar> \<le> MAX_SAFE_INTEGER"
  shows "parseInt10 (decimal n) = Some (of_int n)"
proof -
  obtain d ds where ds: "digits (nat \<bar>n\<bar>) = d # ds"
    using digits_are_digits [of "nat \<bar>n\<bar>"] by (cases "digits (nat \<bar>n\<bar>)") auto
  have all: "list_all is_digit (d # ds)" using digits_are_digits [of "nat \<bar>n\<bar>"] ds by simp
  then have d: "is_digit d" by simp
  then have nsp: "\<not> is_space d" "d \<noteq> 45" "d \<noteq> 43"
    by (auto simp: is_digit_def is_space_def)
  have tw: "takeWhile is_digit (d # ds) = d # ds" using all by (rule takeWhile_all)
  have val: "digits_value (d # ds) = nat \<bar>n\<bar>"
    using digits_value_digits [of "nat \<bar>n\<bar>"] ds by simp
  have "nat \<bar>n\<bar> < 2 ^ 1024"
  proof -
    have "\<bar>n\<bar> < 2 ^ 53" using assms by (simp add: MAX_SAFE_INTEGER_def)
    also have "(2::int) ^ 53 \<le> 2 ^ 1024" by (rule power_increasing) simp_all
    finally have "\<bar>n\<bar> < 2 ^ 1024" .
    then show ?thesis by (simp add: nat_less_iff)
  qed
  then have fin: "\<not> (2 ^ 1024 \<le> digits_value (d # ds))" using val by simp
  have sp45: "\<not> is_space 45" by (simp add: is_space_def)
  show ?thesis
  proof (cases "n < 0")
    case True
    then have dec: "decimal n = 45 # d # ds" using ds by (simp add: decimal_def)
    from True have "(of_nat (nat \<bar>n\<bar>) :: rat) = - of_int n" by simp
    then show ?thesis
      unfolding parseInt10_def dec Let_def
      using sp45 tw fin val by simp
  next
    case False
    then have dec: "decimal n = d # ds" using ds by (simp add: decimal_def)
    from False have "(of_nat (nat \<bar>n\<bar>) :: rat) = of_int n" by simp
    then show ?thesis
      unfolding parseInt10_def dec Let_def
      using nsp tw fin val by simp
  qed
qed

lemma clampInt_safe_integer:
  assumes "renders_safe_integers str" and "\<bar>n\<bar> \<le> MAX_SAFE_INTEGER"
  shows "clampInt str (JNum (of_int n)) mn mx fallback = max mn (min mx n)"
proof -
  from assms have "js_String str (JNum (of_int n)) = decimal n"
    by (simp add: js_String_def renders_safe_integers_def)
  then show ?thesis
    by (simp add: clampInt_def parseInt10_decimal [OF assms(2)])
qed

lemma example_String_renders: "renders_safe_integers example_String"
  by (simp add: renders_safe_integers_def example_String_def)

lemma find_multiple_choice:
  "find (\<lambda>e. enabledToggleKey e = MULTIPLE_CHOICE_TOGGLE_KEY) questionTypeRegistry
     = Some multipleChoiceEntry"
  by (simp add: questionTypeRegistry_def MULTIPLE_CHOICE_TOGGLE_KEY_def matchingEntry_def
      selectAllEntry_def fillBlankEntry_def multipleChoiceEntry_def)





lemma buildQuestionTypePlan_unfold:
  "buildQuestionTypePlan str cfg totalCount =
     (if length (enabled_types cfg) = 0 then [\<lparr>entry = multipleChoiceEntry, quantity = totalCount\<rparr>]
      else if length (enabled_types cfg) = 1
        then [\<lparr>entry = enabled_types cfg ! 0, quantity = totalCount\<rparr>]
      else if length (filter (\<lambda>item. quantity item > 0)
           (map (\<lambda>e. \<lparr>entry = e,
                   quantity = clampInt str
                     (JNum (of_int (setting_quantity (effective_settings cfg) (quantityKey e))))
                     0 totalCount 0\<rparr>) (enabled_types cfg))) = 0
        then [\<lparr>entry = enabled_types cfg ! 0, quantity = totalCount\<rparr>]
        else filter (\<lambda>item. quantity item > 0)
           (map (\<lambda>e. \<lparr>entry = e,
                   quantity = clampInt str
                     (JNum (of_int (setting_quantity (effective_settings cfg) (quantityKey e))))
                     0 totalCount 0\<rparr>) (enabled_types cfg)))"
proof -
  have en: "filter (\<lambda>e. setting_flag (effective_settings cfg) (enabledToggleKey e))
              questionTypeRegistry = enabled_types cfg"
    by (simp add: enabled_types_def)
  show ?thesis
    unfolding buildQuestionTypePlan_def effective_settings_def [symmetric] Let_def en
      find_multiple_choice
    by (simp only: option.case)
qed




section \<open>Properties of the matcher and the normalizer\<close>

lemmas registry_defs =
  questionTypeRegistry_def matchingEntry_def selectAllEntry_def fillBlankEntry_def
  multipleChoiceEntry_def trueFalseEntry_def shortLongEntry_def

lemmas guard_defs =
  isMatchingQuestion_def isSelectAllQuestion_def isFillBlankQuestion_def
  isMultipleChoiceQuestion_def isTrueFalseQuestion_def isShortLongAnswerQuestion_def
  isRecord_def isString_def isNumber_def isBoolean_def isStringArray_def isNumberArray_def

lemma matchQuestionType_first_match:
  "matchQuestionType v =
     (if isMatchingQuestion v then Some matchingEntry
      else if isSelectAllQuestion v then Some selectAllEntry
      else if isFillBlankQuestion v then Some fillBlankEntry
      else if isMultipleChoiceQuestion v then Some multipleChoiceEntry
      else if isTrueFalseQuestion v then Some trueFalseEntry
      else if isShortLongAnswerQuestion v then Some shortLongEntry
      else None)"
  by (simp add: matchQuestionType_def registry_defs)

lemma multiple_choice_with_answer_is_fill_blank:
  "isMultipleChoiceQuestion v \<Longrightarrow> isString (field v ''answer'') \<Longrightarrow> isFillBlankQuestion v"
  by (simp add: isMultipleChoiceQuestion_def isFillBlankQuestion_def split: if_splits)

lemma normalizeQuestion_unsupported:
  "matchQuestionType v = Some e \<Longrightarrow> enabledToggleKey e \<noteq> ''multipleChoiceEnabled'' \<Longrightarrow>
   normalizeQuestion str newId v n = Inl (UnsupportedQuestionType (description e))"
  by (simp add: normalizeQuestion_def MULTIPLE_CHOICE_TOGGLE_KEY_def)

text \<open>
  C6, at a record of the multiple-choice shape whose answer index is the finite number 1.5:
  with four choices and \<open>choicesCount = 4\<close> the normalizer succeeds and the answer index of
  the result is 1.5 itself, which is not an integer.
\<close>

theorem normalizeQuestion_fractional_answer_index:
  "normalizeQuestion str newId fractional_index_record 4
     = Inr \<lparr>qid = newId, q = asc ''Capital of France?'',
            choices = [asc ''Rome'', asc ''Oslo'', asc ''Paris'', asc ''Bern''],
            answer_index = 3 / 2, explanation = [], user_answer_index = None\<rparr>
   \<and> (3 / 2 :: rat) \<notin> \<int>"
proof -
  have "(3 / 2 :: rat) = of_int n \<Longrightarrow> False" for n :: int
  proof -
    assume "(3 / 2 :: rat) = of_int n"
    then have "(of_int 3 :: rat) = of_int (2 * n)" by simp
    then have "(3::int) = 2 * n" by (simp only: of_int_eq_iff)
    then show False by presburger
  qed
  then have "(3 / 2 :: rat) \<notin> \<int>" by (auto simp: Ints_def)
  moreover have "normalizeQuestion str newId fractional_index_record 4
     = Inr \<lparr>qid = newId, q = asc ''Capital of France?'',
            choices = [asc ''Rome'', asc ''Oslo'', asc ''Paris'', asc ''Bern''],
            answer_index = 3 / 2, explanation = [], user_answer_index = None\<rparr>"
    by (simp add: normalizeQuestion_def fractional_index_record_def matchQuestionType_first_match
        guard_defs registry_defs asc_def MULTIPLE_CHOICE_TOGGLE_KEY_def truthy_def js_String_def
        trim_def is_space_def Let_def)
  ultimately show ?thesis by simp
qed

text \<open>
  C10, as stated, at a record of the multiple-choice shape that carries a string \<open>answer\<close>
  and also a non-empty \<open>correct_indexes\<close> array: it is matched as select-all, which is
  registered before fill-in-blank, not as fill-in-blank.
\<close>

theorem answer_field_not_always_fill_blank_counterexample:
  "isMultipleChoiceQuestion answer_and_indexes_record
   \<and> isString (field answer_and_indexes_record ''answer'')
   \<and> map_option enabledToggleKey (matchQuestionType answer_and_indexes_record)
       = Some ''selectAllEnabled''
   \<and> map_option enabledToggleKey (matchQuestionType answer_and_indexes_record)
       \<noteq> Some ''fillBlankEnabled''"
  by (simp add: answer_and_indexes_record_def matchQuestionType_first_match guard_defs
      registry_defs asc_def)

text \<open>
  C10, amended. A record that satisfies the multiple-choice predicate and carries a string
  \<open>answer\<close> field is never normalized: the matcher returns the first matching registry entry,
  which is the matching entry or the select-all entry when the record also has one of those
  shapes and the fill-in-blank entry otherwise, and the normalizer rejects it with the
  unsupported-question-type error of that entry. Such records exist.
\<close>

theorem multiple_choice_shape_with_answer_rejected:
  "(isMultipleChoiceQuestion v \<and> isString (field v ''answer'') \<longrightarrow>
      matchQuestionType v
        = Some (if isMatchingQuestion v then matchingEntry
                else if isSelectAllQuestion v then selectAllEntry else fillBlankEntry)
    \<and> normalizeQuestion str newId v n
        = Inl (UnsupportedQuestionType
                 (if isMatchingQuestion v then ''Matching (pair terms with definitions)''
                  else if isSelectAllQuestion v then ''Select All (multiple correct choices)''
                  else ''Fill in the Blank (short text answer)'')))
   \<and> isMultipleChoiceQuestion answer_record \<and> isString (field answer_record ''answer'')
   \<and> \<not> isMatchingQuestion answer_record \<and> \<not> isSelectAllQuestion answer_record"
proof -
  have ex: "isMultipleChoiceQuestion answer_record \<and> isString (field answer_record ''answer'')
      \<and> \<not> isMatchingQuestion answer_record \<and> \<not> isSelectAllQuestion answer_record"
    by (simp add: answer_record_def guard_defs asc_def)
  have gen: "matchQuestionType v
        = Some (if isMatchingQuestion v then matchingEntry
                else if isSelectAllQuestion v then selectAllEntry else fillBlankEntry)
    \<and> normalizeQuestion str newId v n
        = Inl (UnsupportedQuestionType
                 (if isMatchingQuestion v then ''Matching (pair terms with definitions)''
                  else if isSelectAllQuestion v then ''Select All (multiple correct choices)''
                  else ''Fill in the Blank (short text answer)''))"
    if mc: "isMultipleChoiceQuestion v" and ans: "isString (field v ''answer'')"
  proof -
    have fb: "isFillBlankQuestion v"
      using mc ans by (rule multiple_choice_with_answer_is_fill_blank)
    let ?e = "if isMatchingQuestion v then matchingEntry
              else if isSelectAllQuestion v then selectAllEntry else fillBlankEntry"
    have m: "matchQuestionType v = Some ?e"
      using fb by (simp add: matchQuestionType_first_match)
    have k: "enabledToggleKey ?e \<noteq> ''multipleChoiceEnabled''"
      by (simp add: registry_defs)
    have d: "description ?e
        = (if isMatchingQuestion v then ''Matching (pair terms with definitions)''
           else if isSelectAllQuestion v then ''Select All (multiple correct choices)''
           else ''Fill in the Blank (short text answer)'')"
      by (simp add: registry_defs)
    from normalizeQuestion_unsupported [OF m k, of str newId n] d m show ?thesis
      by simp
  qed
  from ex gen show ?thesis by blast
qed

theorem multiple_choice_shape_with_answer_rejected_witness:
  "isMultipleChoiceQuestion answer_record \<and> isString (field answer_record ''answer'')
   \<and> map_option enabledToggleKey (matchQuestionType answer_record) = Some ''fillBlankEnabled''
   \<and> normalizeQuestion (\<lambda>v. []) (asc ''qz_1'') answer_record 2
       = Inl (UnsupportedQuestionType ''Fill in the Blank (short text answer)'')"
  using multiple_choice_shape_with_answer_rejected
    [of answer_record "\<lambda>v. []" "asc ''qz_1''" 2]
  by (simp add: registry_defs)

section \<open>Properties of the grading engine\<close>

lemma floor_rat_numeral: "\<lfloor>numeral a / numeral b :: rat\<rfloor> = numeral a div numeral b"
  by (metis floor_divide_of_int_eq of_int_numeral)

lemmas double_eval =
  to_double_def normalise.simps round_half_even_def pow2_def Let_def floor_rat_numeral

lemmas grade_eval =
  computeGrade_def quiz_of_def grade_question_def answered_question_def Math_round_def

lemma to_double_23_40: "to_double (23 / 40) = 5179139571476070 / 2 ^ 53"
  by (simp add: double_eval)

lemma to_double_23_40_times_100:
  "to_double (to_double (23 / 40) * 100) = 8092405580431359 / 2 ^ 47"
  by (simp add: double_eval)

lemma computeGrade_2_of_3_of_5:
  "total (computeGrade quiz_2_of_3_of_5) = 5
   \<and> answered (computeGrade quiz_2_of_3_of_5) = 3
   \<and> correct (computeGrade quiz_2_of_3_of_5) = 2
   \<and> accuracyAnswered (computeGrade quiz_2_of_3_of_5) = 67
   \<and> accuracyTotal (computeGrade quiz_2_of_3_of_5) = 40"
  by (simp add: quiz_2_of_3_of_5_def grade_eval double_eval)

text \<open>
  C9, at a quiz of 40 questions, all answered and 23 of them correctly. The exact
  percentage is 57.5, which rounds half up to 58. The code divides first: the double
  nearest to \<open>23 / 40\<close> lies below it, its product with 100 rounds to the double just below
  57.5 (printed 57.49999999999999), and \<open>Math.round\<close> returns 57 for both accuracies.
\<close>

theorem computeGrade_23_of_40:
  "total (computeGrade quiz_23_of_40) = 40
   \<and> answered (computeGrade quiz_23_of_40) = 40
   \<and> correct (computeGrade quiz_23_of_40) = 23
   \<and> accuracyAnswered (computeGrade quiz_23_of_40) = 57
   \<and> accuracyTotal (computeGrade quiz_23_of_40) = 57
   \<and> to_double (to_double (23 / 40) * 100) < 115 / 2
   \<and> round_half_up (100 * 23 / 40) = 58"
  by (simp add: quiz_23_of_40_def grade_eval double_eval round_half_up_def)

section \<open>Properties of the deduplicator\<close>

lemma jaccard_is_similarity: "jaccard a b = jaccard_similarity a b"
proof (cases "a = {||} \<or> b = {||}")
  case True
  then show ?thesis by (auto simp: jaccard_def jaccard_similarity_def)
next
  case False
  have inter: "ffilter (\<lambda>x. x |\<in>| b) a = a |\<inter>| b" by auto
  have "fcard a + fcard b = fcard (a |\<union>| b) + fcard (a |\<inter>| b)"
    by (rule fcard_funion_finter)
  then have uni: "fcard a + fcard b - fcard (a |\<inter>| b) = fcard (a |\<union>| b)" by simp
  from False have ne: "a |\<union>| b \<noteq> {||}" "fcard a \<noteq> 0" "fcard b \<noteq> 0" by auto
  then have u: "fcard (a |\<union>| b) \<noteq> 0" by simp
  have "jaccard a b = of_nat (fcard (a |\<inter>| b)) / of_nat (fcard (a |\<union>| b))"
    unfolding jaccard_def Let_def inter uni using ne(2,3) u by simp
  with ne(1) show ?thesis
    by (simp add: jaccard_similarity_def)
qed

lemma plain_char_space: "plain_char c \<Longrightarrow> is_space c = (c = 32)"
  by (auto simp: plain_char_def is_space_def)

lemma lower_unit_plain: "plain_char c \<Longrightarrow> lower_unit c = [c]"
  by (auto simp: plain_char_def lower_unit_def)

lemma toLowerCase_plain: "list_all plain_char n \<Longrightarrow> toLowerCase n = n"
  by (induction n) (simp_all add: toLowerCase_def lower_unit_plain)

lemma blank_out_plain: "list_all plain_char n \<Longrightarrow> map (\<lambda>c. if plain_char c then c else 32) n = n"
  by (induction n) simp_all

lemma blank_out_all_plain: "list_all plain_char (map (\<lambda>c. if plain_char c then c else 32) s)"
  by (induction s) (simp_all add: plain_char_def)

lemma no_double_blank_Cons:
  "no_double_blank (a # xs) = ((xs \<noteq> [] \<longrightarrow> \<not> (a = 32 \<and> hd xs = 32)) \<and> no_double_blank xs)"
  by (cases xs) simp_all

lemma collapse_ws_hd:
  "xs \<noteq> [] \<Longrightarrow> collapse_ws xs \<noteq> [] \<and> hd (collapse_ws xs) = (if is_space (hd xs) then 32 else hd xs)"
  by (cases xs) simp_all

lemma collapse_ws_plain: "list_all plain_char xs \<Longrightarrow> list_all plain_char (collapse_ws xs)"
proof (induction xs rule: collapse_ws.induct)
  case 1
  show ?case by simp
next
  case (2 c cs)
  have "set (dropWhile is_space cs) \<subseteq> set cs" by (rule set_dropWhileD [THEN subsetI]) 
  with 2 show ?case by (auto simp: list_all_iff plain_char_def)
qed

lemma collapse_ws_no_double_blank: "no_double_blank (collapse_ws xs)"
proof (induction xs rule: collapse_ws.induct)
  case 1
  show ?case by simp
next
  case (2 c cs)
  show ?case
  proof (cases "is_space c")
    case True
    let ?r = "dropWhile is_space cs"
    have "?r \<noteq> [] \<Longrightarrow> hd (collapse_ws ?r) \<noteq> 32"
      using collapse_ws_hd [of ?r] hd_dropWhile [of is_space cs] by (auto simp: is_space_def)
    moreover have "collapse_ws ?r \<noteq> [] \<Longrightarrow> ?r \<noteq> []"
      by (metis collapse_ws.simps(1))
    ultimately show ?thesis using 2 True by (auto simp: no_double_blank_Cons)
  next
    case False
    then have "c \<noteq> 32" by (auto simp: is_space_def)
    with 2 False show ?thesis by (simp add: no_double_blank_Cons)
  qed
qed

lemma collapse_ws_fixed:
  "list_all plain_char n \<Longrightarrow> no_double_blank n \<Longrightarrow> collapse_ws n = n"
proof (induction n)
  case Nil
  show ?case by simp
next
  case (Cons c cs)
  then have ih: "collapse_ws cs = cs" by (simp add: no_double_blank_Cons)
  show ?case
  proof (cases "is_space c")
    case True
    with Cons.prems have c: "c = 32" by (simp add: plain_char_space)
    have "dropWhile is_space cs = cs"
    proof (cases cs)
      case Nil
      then show ?thesis by simp
    next
      case (Cons d ds)
      with Cons.prems c have "plain_char d" "d \<noteq> 32" by simp_all
      then have "\<not> is_space d" by (simp add: plain_char_space)
      with Cons show ?thesis by simp
    qed
    with True c ih show ?thesis by simp
  next
    case False
    with ih show ?thesis by simp
  qed
qed

lemma trim_infix: "\<exists>a c. s = a @ trim s @ c"
proof -
  let ?d = "dropWhile is_space s"
  have 1: "s = takeWhile is_space s @ ?d" by simp
  have "rev (dropWhile is_space (rev ?d)) @ rev (takeWhile is_space (rev ?d))
      = rev (takeWhile is_space (rev ?d) @ dropWhile is_space (rev ?d))"
    by (simp only: rev_append)
  also have "\<dots> = ?d"
    by (simp only: takeWhile_dropWhile_id rev_rev_ident)
  finally have 2: "?d = trim s @ rev (takeWhile is_space (rev ?d))"
    by (simp only: trim_def)
  from 1 2 show ?thesis by metis
qed

lemma trim_ends:
  assumes "trim s \<noteq> []"
  shows "\<not> is_space (hd (trim s)) \<and> \<not> is_space (last (trim s))"
proof -
  let ?d = "dropWhile is_space s"
  let ?e = "dropWhile is_space (rev ?d)"
  from assms have e: "?e \<noteq> []" by (simp add: trim_def)
  then have d: "?d \<noteq> []" by (metis dropWhile.simps(1) rev_is_Nil_conv)
  have "last (trim s) = hd ?e" using e by (simp add: trim_def last_rev)
  moreover have "\<not> is_space (hd ?e)" using e by (rule hd_dropWhile)
  moreover have "hd (trim s) = last ?e" using e by (simp add: trim_def hd_rev)
  moreover have "last ?e = last (rev ?d)"
    using e by (metis append_Nil2 last_appendR takeWhile_dropWhile_id)
  moreover have "last (rev ?d) = hd ?d" using d by (simp add: last_rev)
  moreover have "\<not> is_space (hd ?d)" using d by (rule hd_dropWhile)
  ultimately show ?thesis by simp
qed

lemma trim_fixed:
  "n \<noteq> [] \<longrightarrow> \<not> is_space (hd n) \<and> \<not> is_space (last n) \<Longrightarrow> trim n = n"
proof (cases "n = []")
  case True
  then show ?thesis by (simp add: trim_def)
next
  case False
  assume "n \<noteq> [] \<longrightarrow> \<not> is_space (hd n) \<and> \<not> is_space (last n)"
  with False have h: "\<not> is_space (hd n)" and l: "\<not> is_space (last n)" by simp_all
  from False h have 1: "dropWhile is_space n = n" by (cases n) simp_all
  from False l have "\<not> is_space (hd (rev n))" by (simp add: hd_rev)
  with False have 2: "dropWhile is_space (rev n) = rev n" by (cases "rev n") simp_all
  show ?thesis by (simp add: trim_def 1 2)
qed

lemma no_double_blank_append:
  "no_double_blank (xs @ ys) \<Longrightarrow> no_double_blank xs \<and> no_double_blank ys"
proof (induction xs)
  case Nil
  then show ?case by simp
next
  case (Cons a xs)
  from Cons.prems have "no_double_blank (xs @ ys)"
    by (simp add: no_double_blank_Cons)
  with Cons.IH have ih: "no_double_blank xs \<and> no_double_blank ys" by simp
  from Cons.prems have "xs \<noteq> [] \<longrightarrow> \<not> (a = 32 \<and> hd xs = 32)"
    by (auto simp: no_double_blank_Cons hd_append)
  with ih show ?case by (simp add: no_double_blank_Cons)
qed

lemma normText_normalized: "normalized (normText s)"
proof -
  let ?m = "collapse_ws (map (\<lambda>c. if plain_char c then c else 32) (toLowerCase s))"
  have p: "list_all plain_char ?m"
    by (rule collapse_ws_plain) (rule blank_out_all_plain)
  have d: "no_double_blank ?m" by (rule collapse_ws_no_double_blank)
  obtain a c where m: "?m = a @ normText s @ c"
    using trim_infix [of ?m] by (auto simp: normText_def)
  from p m have 1: "list_all plain_char (normText s)"
    by (metis list_all_append)
  from d m have 2: "no_double_blank (normText s)"
    by (metis no_double_blank_append)
  have 3: "normText s \<noteq> [] \<longrightarrow> hd (normText s) \<noteq> 32 \<and> last (normText s) \<noteq> 32"
    using trim_ends [of ?m] by (auto simp: normText_def is_space_def)
  from 1 2 3 show ?thesis by (simp add: normalized_def)
qed

lemma normText_fixed: "normalized n \<Longrightarrow> normText n = n"
proof -
  assume n: "normalized n"
  then have p: "list_all plain_char n" and d: "no_double_blank n"
    and e: "n \<noteq> [] \<longrightarrow> hd n \<noteq> 32 \<and> last n \<noteq> 32"
    by (simp_all add: normalized_def)
  have "n \<noteq> [] \<longrightarrow> \<not> is_space (hd n) \<and> \<not> is_space (last n)"
  proof
    assume ne: "n \<noteq> []"
    then have "hd n \<in> set n" "last n \<in> set n" by simp_all
    with p have "plain_char (hd n)" "plain_char (last n)" by (simp_all add: list_all_iff)
    with e ne show "\<not> is_space (hd n) \<and> \<not> is_space (last n)"
      by (simp add: plain_char_space)
  qed
  then have "trim n = n" by (rule trim_fixed)
  with p d show ?thesis
    by (simp add: normText_def toLowerCase_plain blank_out_plain collapse_ws_fixed)
qed

lemma normText_idempotent: "normText (normText s) = normText s"
  by (rule normText_fixed) (rule normText_normalized)

lemma tokenSet_normText: "tokenSet (normText s) = long_words (normText s)"
  by (simp add: tokenSet_def long_words_def normText_idempotent)

lemmas norm_eval = normText_def asc_def toLowerCase_def lower_unit_def plain_char_def
  is_space_def trim_def

lemma capital_question_normText:
  "normText (asc ''What is the capital of France?'') = asc ''what is the capital of france''"
  by (simp add: norm_eval)

lemma capital_question_tokens:
  "tokenSet (asc ''What is the capital of France?'')
     = {|asc ''what'', asc ''the'', asc ''capital'', asc ''france''|}"
  by (simp add: tokenSet_def norm_eval)

lemma isNearDuplicate_iff:
  "isNearDuplicate qText existing existingTokenSets
      \<longleftrightarrow> normText qText = []
        \<or> normText qText |\<in>| existing
        \<or> (\<exists>ex \<in> set existingTokenSets.
              72 / 100 \<le> jaccard_similarity (long_words (normText qText)) ex)"
  by (auto simp: isNearDuplicate_def Let_def tokenSet_normText jaccard_is_similarity
      list_ex_iff)

text \<open>
  C8. \<open>isNearDuplicate\<close> rejects a candidate exactly when its normalized text is empty, or
  is an existing normalized entry, or its set of words of length at least 3 has Jaccard
  similarity at least 0.72 with some existing token set, the similarity of two empty sets
  being 0. The normalized text is lower case, holds only characters of \<open>[a-z0-9 ]\<close> (every
  other character has given way to a blank), has its white space collapsed and is trimmed.
  Against the existing question "What is the capital of France?" the candidate "What's the
  capital city of France?" is rejected and "Name the longest river in Egypt" is accepted.
\<close>

theorem isNearDuplicate_characterisation:
  "(isNearDuplicate qText existing existingTokenSets
      \<longleftrightarrow> normText qText = []
        \<or> normText qText |\<in>| existing
        \<or> (\<exists>ex \<in> set existingTokenSets.
              72 / 100 \<le> jaccard_similarity (long_words (normText qText)) ex))
   \<and> normalized (normText qText)
   \<and> jaccard_similarity {||} {||} = 0
   \<and> isNearDuplicate (asc ''What's the capital city of France?'')
        {|normText (asc ''What is the capital of France?'')|}
        [tokenSet (asc ''What is the capital of France?'')]
   \<and> \<not> isNearDuplicate (asc ''Name the longest river in Egypt'')
        {|normText (asc ''What is the capital of France?'')|}
        [tokenSet (asc ''What is the capital of France?'')]"
proof -
  have n1: "normText (asc ''What's the capital city of France?'')
      = asc ''what s the capital city of france''"
    by (simp add: norm_eval)
  have t1: "long_words (asc ''what s the capital city of france'')
      = {|asc ''what'', asc ''the'', asc ''capital'', asc ''city'', asc ''france''|}"
    by (simp add: long_words_def asc_def)
  have n2: "normText (asc ''Name the longest river in Egypt'')
      = asc ''name the longest river in egypt''"
    by (simp add: norm_eval)
  have t2: "long_words (asc ''name the longest river in egypt'')
      = {|asc ''name'', asc ''the'', asc ''longest'', asc ''river'', asc ''egypt''|}"
    by (simp add: long_words_def asc_def)
  have j1: "jaccard_similarity
      {|asc ''what'', asc ''the'', asc ''capital'', asc ''city'', asc ''france''|}
      {|asc ''what'', asc ''the'', asc ''capital'', asc ''france''|} = 4 / 5"
    by (simp add: jaccard_similarity_def asc_def fcard_finsert_if fcard_fempty)
  have j2: "jaccard_similarity
      {|asc ''name'', asc ''the'', asc ''longest'', asc ''river'', asc ''egypt''|}
      {|asc ''what'', asc ''the'', asc ''capital'', asc ''france''|} = 1 / 8"
    by (simp add: jaccard_similarity_def asc_def fcard_finsert_if fcard_fempty)
  have e1: "isNearDuplicate (asc ''What's the capital city of France?'')
        {|normText (asc ''What is the capital of France?'')|}
        [tokenSet (asc ''What is the capital of France?'')]"
    unfolding isNearDuplicate_iff capital_question_normText capital_question_tokens n1 t1
    by (simp add: j1)
  have e2: "\<not> isNearDuplicate (asc ''Name the longest river in Egypt'')
        {|normText (asc ''What is the capital of France?'')|}
        [tokenSet (asc ''What is the capital of France?'')]"
    unfolding isNearDuplicate_iff capital_question_normText capital_question_tokens n2 t2
    using j2 by (simp add: asc_def)
  have z: "jaccard_similarity {||} {||} = 0" by (simp add: jaccard_similarity_def)
  from isNearDuplicate_iff [of qText existing existingTokenSets]
    normText_normalized [of qText] z e1 e2
  show ?thesis by blast
qed

theorem isNearDuplicate_characterisation_witness:
  "isNearDuplicate (asc ''the capital of France'') {||}
     [{|asc ''what'', asc ''the'', asc ''capital'', asc ''france''|}]
   \<and> normText (asc ''the capital of France'') = asc ''the capital of france''
   \<and> jaccard_similarity (long_words (asc ''the capital of france''))
        {|asc ''what'', asc ''the'', asc ''capital'', asc ''france''|} = 3 / 4"
proof -
  have n: "normText (asc ''the capital of France'') = asc ''the capital of france''"
    by (simp add: norm_eval)
  have t: "long_words (asc ''the capital of france'')
      = {|asc ''the'', asc ''capital'', asc ''france''|}"
    by (simp add: long_words_def asc_def)
  have j: "jaccard_similarity {|asc ''the'', asc ''capital'', asc ''france''|}
      {|asc ''what'', asc ''the'', asc ''capital'', asc ''france''|} = 3 / 4"
    by (simp add: jaccard_similarity_def asc_def fcard_finsert_if fcard_fempty)
  from isNearDuplicate_characterisation [of "asc ''the capital of France''" "{||}"
      "[{|asc ''what'', asc ''the'', asc ''capital'', asc ''france''|}]"]
  have "isNearDuplicate (asc ''the capital of France'') {||}
     [{|asc ''what'', asc ''the'', asc ''capital'', asc ''france''|}]"
    unfolding n t by (simp add: j)
  with n t j show ?thesis by simp
qed

section \<open>Properties of the randomizer\<close>

lemma random_index_le:
  assumes "0 \<le> r" "r < 1"
  shows "nat \<lfloor>r * of_nat (i + 1)\<rfloor> \<le> i"
proof -
  have "r * of_nat (i + 1) < of_nat (i + 1)"
    using assms by (simp add: mult_less_cancel_right2 del: of_nat_add of_nat_Suc)
  then have "\<lfloor>r * of_nat (i + 1)\<rfloor> < int (i + 1)"
    by (simp add: floor_less_iff del: of_nat_add of_nat_Suc)
  then show ?thesis by linarith
qed

lemma shuffle_from_mset:
  "\<forall>n. 0 \<le> rnd n \<and> rnd n < 1 \<Longrightarrow> i < length arr \<or> i = 0 \<Longrightarrow>
   mset (fst (shuffle_from rnd k i arr)) = mset arr"
proof (induction rnd k i arr rule: shuffle_from.induct)
  case (1 rnd k i arr)
  show ?case
  proof (cases "i = 0")
    case True
    then show ?thesis by (simp add: shuffle_from.simps)
  next
    case False
    let ?j = "nat \<lfloor>rnd k * of_nat (i + 1)\<rfloor>"
    let ?arr = "arr[i := arr ! ?j, ?j := arr ! i]"
    from False "1.prems" have i: "i < length arr" by simp
    have j: "?j \<le> i" using "1.prems"(1) by (intro random_index_le) auto
    have sw: "mset ?arr = mset arr"
      using i j by (simp add: mset_swap)
    have "mset (fst (shuffle_from rnd (k + 1) (i - 1) ?arr)) = mset ?arr"
      using False i "1.prems"(1) by (intro "1.IH") auto
    with False sw show ?thesis
      by (simp add: shuffle_from.simps [of rnd k i arr] Let_def)
  qed
qed

lemma shuffleInPlace_mset:
  "\<forall>n. 0 \<le> rnd n \<and> rnd n < 1 \<Longrightarrow> mset (fst (shuffleInPlace rnd k arr)) = mset arr"
  unfolding shuffleInPlace_def
  by (rule shuffle_from_mset) (auto simp: less_Suc_eq_0_disj)
lemma findIndex_found:
  "\<exists>x \<in> set xs. P x \<Longrightarrow>
   0 \<le> findIndex P xs \<and> nat (findIndex P xs) < length xs \<and> P (xs ! nat (findIndex P xs))"
proof (induction xs)
  case Nil
  then show ?case by simp
next
  case (Cons x xs)
  show ?case
  proof (cases "P x")
    case True
    then show ?thesis by simp
  next
    case False
    with Cons.prems have "\<exists>y \<in> set xs. P y" by simp
    with Cons.IH have ih: "0 \<le> findIndex P xs" "nat (findIndex P xs) < length xs"
        "P (xs ! nat (findIndex P xs))" by simp_all
    from ih(1) have "nat (findIndex P xs + 1) = Suc (nat (findIndex P xs))" by simp
    with False ih show ?thesis by (simp add: Let_def)
  qed
qed

lemma findIndex_missing: "\<forall>x \<in> set xs. \<not> P x \<Longrightarrow> findIndex P xs = - 1"
  by (induction xs) (simp_all add: Let_def)

lemma zip_upt_member:
  "(t, i) \<in> set (zip cs [0 ..< length cs]) \<longleftrightarrow> i < length cs \<and> t = cs ! i"
  by (auto simp: set_zip)

lemma shuffled_pairs:
  assumes rnd: "\<forall>n. 0 \<le> rnd n \<and> rnd n < 1"
  shows "set (fst (shuffleInPlace rnd k (zip cs [0 ..< length cs])))
           = set (zip cs [0 ..< length cs])"
    and "length (fst (shuffleInPlace rnd k (zip cs [0 ..< length cs]))) = length cs"
proof -
  let ?s = "fst (shuffleInPlace rnd k (zip cs [0 ..< length cs]))"
  have m: "mset ?s = mset (zip cs [0 ..< length cs])"
    using rnd by (rule shuffleInPlace_mset)
  show "set ?s = set (zip cs [0 ..< length cs])"
    using m by (rule mset_eq_setD)
  show "length ?s = length cs"
    using mset_eq_length [OF m] by simp
qed

lemma relocated_index:
  fixes cs :: "jstring list"
  assumes rnd: "\<forall>n. 0 \<le> rnd n \<and> rnd n < 1"
    and a: "a < length cs"
  shows "\<exists>a'. findIndex (\<lambda>p. (of_nat (snd p) :: rat) = of_nat a)
                 (fst (shuffleInPlace rnd k (zip cs [0 ..< length cs]))) = int a'
             \<and> a' < length cs
             \<and> map fst (fst (shuffleInPlace rnd k (zip cs [0 ..< length cs]))) ! a' = cs ! a"
proof -
  let ?s = "fst (shuffleInPlace rnd k (zip cs [0 ..< length cs]))"
  let ?P = "\<lambda>p :: jstring \<times> nat. (of_nat (snd p) :: rat) = of_nat a"
  note sp = shuffled_pairs [OF rnd, of k cs]
  from a have "(cs ! a, a) \<in> set ?s" by (simp add: sp(1) zip_upt_member)
  then have "\<exists>x \<in> set ?s. ?P x" by force
  from findIndex_found [of ?s ?P, OF this]
  have f: "0 \<le> findIndex ?P ?s" "nat (findIndex ?P ?s) < length ?s"
      "?P (?s ! nat (findIndex ?P ?s))" by simp_all
  let ?a' = "nat (findIndex ?P ?s)"
  from f(2) have "?s ! ?a' \<in> set ?s" by simp
  then have "(fst (?s ! ?a'), snd (?s ! ?a')) \<in> set (zip cs [0 ..< length cs])"
    by (simp add: sp(1))
  then have "fst (?s ! ?a') = cs ! snd (?s ! ?a')" by (simp only: zip_upt_member)
  moreover from f(3) have "snd (?s ! ?a') = a" by simp
  ultimately have "map fst ?s ! ?a' = cs ! a" using f(2) by simp
  with f sp(2) show ?thesis by (intro exI [of _ ?a']) simp
qed
lemma randomizeQuestionChoices_kept:
  assumes rnd: "\<forall>n. 0 \<le> rnd n \<and> rnd n < 1"
  shows "correct_choice_kept qu (fst (randomizeQuestionChoices rnd k qu))"
proof -
  let ?cs = "choices qu"
  let ?s = "fst (shuffleInPlace rnd k (zip ?cs [0 ..< length ?cs]))"
  let ?qu' = "fst (randomizeQuestionChoices rnd k qu)"
  have ch: "choices ?qu' = map fst ?s"
    and ai: "answer_index ?qu'
               = of_int (max 0 (findIndex (\<lambda>p. of_nat (snd p) = answer_index qu) ?s))"
    and ui: "user_answer_index ?qu'
               = (case user_answer_index qu of None \<Rightarrow> None
                  | Some u \<Rightarrow> Some (of_int (findIndex (\<lambda>p. of_nat (snd p) = u) ?s)))"
    and rest: "qid ?qu' = qid qu" "q ?qu' = q qu" "explanation ?qu' = explanation qu"
    by (simp_all add: randomizeQuestionChoices_def Let_def split_def)
  note sp = shuffled_pairs [OF rnd, of k ?cs]
  have len: "length (choices ?qu') = length ?cs" by (simp add: ch sp(2))
  have 1: "\<exists>a'. answer_index ?qu' = of_nat a' \<and> a' < length (choices ?qu')
               \<and> choices ?qu' ! a' = ?cs ! a"
    if "answer_index qu = of_nat a" "a < length ?cs" for a
  proof -
    from relocated_index [OF rnd that(2), of k] obtain a' where
      "findIndex (\<lambda>p. (of_nat (snd p) :: rat) = of_nat a) ?s = int a'" "a' < length ?cs"
      "map fst ?s ! a' = ?cs ! a" by blast
    then show ?thesis by (intro exI [of _ a']) (simp add: ai ch sp(2) that(1))
  qed
  have 2: "(user_answer_index ?qu' = None) = (user_answer_index qu = None)"
    by (simp add: ui split: option.split)
  have 3: "\<exists>u'. user_answer_index ?qu' = Some (of_nat u') \<and> u' < length (choices ?qu')
               \<and> choices ?qu' ! u' = ?cs ! u"
    if "user_answer_index qu = Some (of_nat u)" "u < length ?cs" for u
  proof -
    from relocated_index [OF rnd that(2), of k] obtain u' where
      "findIndex (\<lambda>p. (of_nat (snd p) :: rat) = of_nat u) ?s = int u'" "u' < length ?cs"
      "map fst ?s ! u' = ?cs ! u" by blast
    then show ?thesis by (intro exI [of _ u']) (simp add: ui ch sp(2) that(1))
  qed
  have "mset (map fst ?s) = mset (map fst (zip ?cs [0 ..< length ?cs]))"
    using shuffleInPlace_mset [OF rnd, of k "zip ?cs [0 ..< length ?cs]"]
    by (metis mset_map)
  then have 4: "mset (choices ?qu') = mset ?cs" by (simp add: ch)
  from 1 2 3 4 rest show ?thesis
    unfolding correct_choice_kept_def by blast
qed

lemma map_randomize_members:
  "qu' \<in> set (fst (map_randomize rnd k qs)) \<Longrightarrow>
   \<exists>qu \<in> set qs. \<exists>k'. qu' = fst (randomizeQuestionChoices rnd k' qu)"
proof (induction qs arbitrary: k)
  case Nil
  then show ?case by simp
next
  case (Cons x xs)
  then show ?case
    by (auto simp: split_def Let_def)
qed

lemma randomizeQuestionChoices_qid: "qid (fst (randomizeQuestionChoices rnd k qu)) = qid qu"
  by (simp add: randomizeQuestionChoices_def Let_def split_def)

lemma map_randomize_qids: "map qid (fst (map_randomize rnd k qs)) = map qid qs"
  by (induction qs arbitrary: k) (simp_all add: split_def Let_def randomizeQuestionChoices_qid)

text \<open>
  C5. Whatever values the random generator returns, \<open>randomizeQuestionChoices\<close> leaves at the
  recomputed answer index the choice text that was at the original answer index, for every
  question whose answer index points at one of its choices; a user answer index is moved
  the same way and an absent one stays absent. The same holds for every question of the
  list \<open>randomizeQuestions\<close> returns, which holds the questions it was given in some order.
\<close>

theorem randomizer_keeps_correct_choice:
  assumes "\<forall>n. 0 \<le> rnd n \<and> rnd n < 1"
  shows "correct_choice_kept qu (fst (randomizeQuestionChoices rnd k qu))
       \<and> (\<forall>qu' \<in> set (fst (randomizeQuestions rnd k qs)).
            \<exists>qu \<in> set qs. correct_choice_kept qu qu')
       \<and> mset (map qid (fst (randomizeQuestions rnd k qs))) = mset (map qid qs)"
proof -
  let ?m = "map_randomize rnd k qs"
  have out: "fst (randomizeQuestions rnd k qs) = fst (shuffleInPlace rnd (snd ?m) (fst ?m))"
    by (simp add: randomizeQuestions_def split_def Let_def)
  have ms: "mset (fst (randomizeQuestions rnd k qs)) = mset (fst ?m)"
    unfolding out using assms by (rule shuffleInPlace_mset)
  have 2: "\<exists>qu \<in> set qs. correct_choice_kept qu qu'"
    if "qu' \<in> set (fst (randomizeQuestions rnd k qs))" for qu'
  proof -
    from that ms have "qu' \<in> set (fst ?m)" by (metis mset_eq_setD)
    then obtain qu k' where "qu \<in> set qs" "qu' = fst (randomizeQuestionChoices rnd k' qu)"
      using map_randomize_members by blast
    with randomizeQuestionChoices_kept [OF assms, of qu k'] show ?thesis by blast
  qed
  have "mset (map qid (fst (randomizeQuestions rnd k qs))) = mset (map qid (fst ?m))"
    using ms by (metis mset_map)
  then have 3: "mset (map qid (fst (randomizeQuestions rnd k qs))) = mset (map qid qs)"
    by (simp add: map_randomize_qids)
  from randomizeQuestionChoices_kept [OF assms, of qu k] 2 3 show ?thesis by blast
qed
lemma example_rnd_unit: "\<forall>n. 0 \<le> example_rnd n \<and> example_rnd n < 1"
proof
  fix n :: nat
  have "n * 3 mod 7 < 7" by simp
  then have "(of_nat (n * 3 mod 7) :: rat) < 7"
    by (metis of_nat_less_iff of_nat_numeral)
  then show "0 \<le> example_rnd n \<and> example_rnd n < 1"
    by (simp add: example_rnd_def)
qed

lemma paris_question_shuffled:
  "fst (randomizeQuestionChoices example_rnd 0 paris_question)
     = paris_question\<lparr>choices := [asc ''Bern'', asc ''Paris'', asc ''Oslo'', asc ''Rome''],
         answer_index := 1, user_answer_index := Some 3\<rparr>"
  by (simp add: randomizeQuestionChoices_def paris_question_def shuffleInPlace_def
      shuffle_from.simps example_rnd_def Let_def floor_rat_numeral asc_def)

theorem randomizer_keeps_correct_choice_witness:
  "(\<forall>n. 0 \<le> example_rnd n \<and> example_rnd n < 1)
   \<and> correct_choice_kept paris_question (fst (randomizeQuestionChoices example_rnd 0 paris_question))
   \<and> choices paris_question ! 2 = asc ''Paris''
   \<and> answer_index (fst (randomizeQuestionChoices example_rnd 0 paris_question)) = 1
   \<and> choices (fst (randomizeQuestionChoices example_rnd 0 paris_question)) ! 1 = asc ''Paris''"
  using randomizer_keeps_correct_choice [OF example_rnd_unit, of paris_question 0 "[]"]
    example_rnd_unit
  by (simp add: paris_question_shuffled) (simp add: paris_question_def)

section \<open>Properties of the recovery parser\<close>

lemma findIndex_nonneg_or_minus: "findIndex P xs = - 1 \<or> 0 \<le> findIndex P xs"
  by (induction xs) (auto simp: Let_def)

lemma findIndex_or:
  "(let ob = findIndex P xs; ab = findIndex Q xs
    in if ob \<ge> 0 \<and> (ab < 0 \<or> ob < ab) then ob else ab)
   = findIndex (\<lambda>c. P c \<or> Q c) xs"
proof (induction xs)
  case Nil
  show ?case by simp
next
  case (Cons x xs)
  have p: "findIndex P xs = - 1 \<or> 0 \<le> findIndex P xs" by (rule findIndex_nonneg_or_minus)
  have q: "findIndex Q xs = - 1 \<or> 0 \<le> findIndex Q xs" by (rule findIndex_nonneg_or_minus)
  from Cons p q show ?case
    by (auto simp: Let_def split: if_splits)
qed

lemma truncated_loop_scan:
  "truncated_loop inStr esc d t = snd (snd (foldl scan_step (inStr, esc, d) t))"
  by (induction t arbitrary: inStr esc d) simp_all

lemma trim_idem: "trim (trim s) = trim s"
  using trim_ends [of s] by (intro trim_fixed) auto

lemma repair_trimmed: "trim (repairJsonCommon s) = repairJsonCommon s"
  by (simp add: repairJsonCommon_def trim_idem)

lemma ends_with_closer_trimmed:
  "trim t = t \<Longrightarrow> t \<noteq> [] \<Longrightarrow> ends_with_closer t = (last t = 125 \<or> last t = 93)"
proof -
  assume t: "trim t = t" and ne: "t \<noteq> []"
  from trim_ends [of t] t ne have "\<not> is_space (last t)" by simp
  with ne have "dropWhile is_space (rev t) = rev t"
    by (cases "rev t") (simp_all add: last_rev [symmetric] del: last_rev)
  with ne show ?thesis
    by (simp add: ends_with_closer_def Let_def hd_rev)
qed

lemma looksTruncatedJson_trimmed:
  "trim t = t \<Longrightarrow>
   looksTruncatedJson t = (lacks_trailing_closer t \<or> bracket_depth t \<noteq> 0)"
  by (cases "t = []")
     (auto simp: looksTruncatedJson_def Let_def lacks_trailing_closer_def bracket_depth_def
        truncated_loop_scan ends_with_closer_trimmed)

lemma zero_at_Suc: "zero_at st (ch # r) (Suc j) = zero_at (scan_step st ch) r j"
  by (simp add: zero_at_def)

lemma filter_upt_Suc:
  "filter P [0 ..< Suc n] = (if P 0 then [0] else []) @ map Suc (filter (\<lambda>j. P (Suc j)) [0 ..< n])"
proof -
  have "[0 ..< Suc n] = 0 # map Suc [0 ..< n]"
    by (simp add: upt_conv_Cons map_Suc_upt del: upt_Suc)
  then show ?thesis by (simp add: filter_map comp_def del: upt_Suc)
qed

lemma balanced_loop_last:
  "balanced_loop i inStr esc d lastEnd rest =
     (case filter (zero_at (inStr, esc, d) rest) [0 ..< length rest] of
        [] \<Rightarrow> lastEnd
      | j # js \<Rightarrow> Some (i + last (j # js)))"
proof (induction rest arbitrary: i inStr esc d lastEnd)
  case Nil
  show ?case by simp
next
  case (Cons ch r)
  let ?st = "scan_step (inStr, esc, d) ch"
  let ?f = "filter (zero_at ?st r) [0 ..< length r]"
  have split: "filter (zero_at (inStr, esc, d) (ch # r)) [0 ..< length (ch # r)]
      = (if zero_at (inStr, esc, d) (ch # r) 0 then [0] else []) @ map Suc ?f"
    by (simp add: filter_upt_Suc zero_at_Suc del: upt_Suc)
  have z0: "zero_at (inStr, esc, d) (ch # r) 0 = (\<not> inStr \<and> (ch = 125 \<or> ch = 93) \<and> d - 1 = 0)"
    by (simp add: zero_at_def)
  have step: "balanced_loop i inStr esc d lastEnd (ch # r)
      = balanced_loop (i + 1) (fst ?st) (fst (snd ?st)) (snd (snd ?st))
          (if zero_at (inStr, esc, d) (ch # r) 0 then Some i else lastEnd) r"
    by (auto simp: z0)
  have ih: "balanced_loop (i + 1) (fst ?st) (fst (snd ?st)) (snd (snd ?st)) le r
      = (case ?f of [] \<Rightarrow> le | j # js \<Rightarrow> Some (i + 1 + last (j # js)))" for le
    using Cons.IH [of "i + 1" "fst ?st" "fst (snd ?st)" "snd (snd ?st)" le] by simp
  show ?case
  proof (cases ?f)
    case Nil
    then show ?thesis
      unfolding step ih split by simp
  next
    case (Cons j js)
    then have "last (map Suc ?f) = Suc (last ?f)" by (simp add: last_map)
    with Cons show ?thesis
      unfolding step ih split by (simp add: last_append)
  qed
qed

lemma findLastBalancedJsonEnd_is_last:
  assumes "start \<le> length s"
  shows "findLastBalancedJsonEnd s start = last_balanced_end s start"
proof -
  let ?t = "drop start s"
  have upt: "[start ..< length s] = map (\<lambda>j. start + j) [0 ..< length ?t]"
    using assms map_add_upt [of start "length s - start"] by (simp add: add.commute)
  have "filter (closes_to_zero s start) [start ..< length s]
      = map (\<lambda>j. start + j) (filter (zero_at (False, False, 0) ?t) [0 ..< length ?t])"
    unfolding upt filter_map
    by (rule arg_cong [of _ _ "map _"], rule filter_cong) (auto simp: closes_to_zero_def)
  then show ?thesis
    by (auto simp: findLastBalancedJsonEnd_def last_balanced_end_def balanced_loop_last
        last_map split: list.splits)
qed

lemma first_open_code:
  "(let ob = findIndex (\<lambda>c. c = 123) s; ab = findIndex (\<lambda>c. c = 91) s;
        start = (if ob \<ge> 0 \<and> (ab < 0 \<or> ob < ab) then ob else ab)
    in if start < 0 then None else Some (nat start)) = first_open s"
  using findIndex_or [of "\<lambda>c. c = 123" s "\<lambda>c. c = 91"]
  by (simp add: first_open_def Let_def)

lemmas repair_eval =
  repairJsonCommon_def asc_def trim_def is_space_def lower_ascii_def
  straighten_double_def straighten_single_def

lemmas json_eval =
  json_parse_def parse_value.simps parse_members.simps parse_elements.simps json_ws_def
  is_digit_def json_number_def digits_value_def double_eval double_overflow_def set_member_def

lemma safeParseJson_unfold:
  assumes "trim text \<noteq> []"
  shows "safeParseJson parse text =
     (let cleaned = repairJsonCommon (trim text)
      in case parse cleaned of
           Inr v \<Rightarrow> Inr v
         | Inl _ \<Rightarrow>
             (case first_open cleaned of
                None \<Rightarrow> Inl NotJson
              | Some start \<Rightarrow>
                  (let last_try =
                         (case parse (repairJsonCommon (drop start cleaned)) of
                            Inr v \<Rightarrow> Inr v
                          | Inl m \<Rightarrow>
                              if looksTruncatedJson (repairJsonCommon (drop start cleaned))
                              then Inl TruncatedJson else Inl (InvalidJson (error_text m)))
                   in case findLastBalancedJsonEnd cleaned start of
                        None \<Rightarrow> last_try
                      | Some end \<Rightarrow>
                          (case parse (repairJsonCommon (slice cleaned start (end + 1))) of
                             Inr v \<Rightarrow> Inr v
                           | Inl _ \<Rightarrow> last_try))))"
proof -
  let ?c = "repairJsonCommon (trim text)"
  let ?ob = "findIndex (\<lambda>c. c = 123) ?c"
  let ?ab = "findIndex (\<lambda>c. c = 91) ?c"
  let ?start = "if ?ob \<ge> 0 \<and> (?ab < 0 \<or> ?ob < ?ab) then ?ob else ?ab"
  have fo: "first_open ?c = (if ?start < 0 then None else Some (nat ?start))"
    using first_open_code [of ?c] by (simp add: Let_def)
  show ?thesis
    using assms unfolding safeParseJson_def Let_def fo
    by (simp split: sum.split)
qed

lemma truncated_answer_fails: "json_parse truncated_answer = Inl JSON_SYNTAX_ERROR"
  by (simp add: truncated_answer_def asc_def json_eval)

lemma truncated_answer_repair: "repairJsonCommon truncated_answer = truncated_answer"
  by (simp add: truncated_answer_def repair_eval)

lemma truncated_answer_classified:
  "safeParseJson json_parse truncated_answer = Inl TruncatedJson"
proof -
  have t: "trim truncated_answer = truncated_answer"
    by (simp add: truncated_answer_def asc_def trim_def is_space_def)
  have ne: "trim truncated_answer \<noteq> []" by (simp add: t) (simp add: truncated_answer_def asc_def)
  have fo: "first_open truncated_answer = Some 0"
    by (simp add: first_open_def truncated_answer_def asc_def)
  have fl: "findLastBalancedJsonEnd truncated_answer 0 = None"
    by (simp add: findLastBalancedJsonEnd_def truncated_answer_def asc_def)
  have lt: "looksTruncatedJson truncated_answer"
    by (simp add: looksTruncatedJson_def t Let_def ends_with_closer_def)
       (simp add: truncated_answer_def asc_def is_space_def)
  show ?thesis
    by (simp add: safeParseJson_unfold [OF ne] t Let_def truncated_answer_repair
        truncated_answer_fails fo fl lt)
qed

lemma not_json_classified:
  "safeParseJson json_parse (asc ''not json at all'') = Inl NotJson"
proof -
  let ?t = "asc ''not json at all''"
  have t: "trim ?t = ?t" by (simp add: asc_def trim_def is_space_def)
  have ne: "trim ?t \<noteq> []" by (simp add: t) (simp add: asc_def)
  have r: "repairJsonCommon ?t = ?t" by (simp add: repair_eval)
  have p: "json_parse ?t = Inl JSON_SYNTAX_ERROR" by (simp add: asc_def json_eval)
  have fo: "first_open ?t = None" by (simp add: first_open_def asc_def)
  show ?thesis
    by (simp add: safeParseJson_unfold [OF ne] t Let_def r p fo)
qed

text \<open>
  C3. When \<open>safeParseJson\<close> fails on a text that is not blank, so that a parse was
  attempted: without any \<open>{\<close> or \<open>[\<close> in the repaired text the error is the malformed
  "not JSON" one; otherwise the error is the truncated one exactly when the repaired tail
  from the first \<open>{\<close> or \<open>[\<close> on does not end with a closer or ends the string-aware scan
  at a depth other than zero, and else it is the malformed error that carries the message
  of the parse error of the tail. The truncated answer of the specification's test is
  classified as truncated and "not json at all" as malformed.
\<close>

theorem safeParseJson_failure_classification:
  "(safeParseJson parse text = Inl e \<and> trim text \<noteq> [] \<longrightarrow>
      (case first_open (repairJsonCommon (trim text)) of
         None \<Rightarrow> e = NotJson
       | Some start \<Rightarrow>
           (e = TruncatedJson \<longleftrightarrow>
              lacks_trailing_closer (repairJsonCommon (drop start (repairJsonCommon (trim text))))
              \<or> bracket_depth (repairJsonCommon (drop start (repairJsonCommon (trim text)))) \<noteq> 0)
         \<and> (e \<noteq> TruncatedJson \<longrightarrow>
              (\<exists>m. parse (repairJsonCommon (drop start (repairJsonCommon (trim text)))) = Inl m
                   \<and> e = InvalidJson (error_text m)))))
   \<and> safeParseJson json_parse truncated_answer = Inl TruncatedJson
   \<and> safeParseJson json_parse (asc ''not json at all'') = Inl NotJson"
proof -
  have gen: "case first_open (repairJsonCommon (trim text)) of
         None \<Rightarrow> e = NotJson
       | Some start \<Rightarrow>
           (e = TruncatedJson \<longleftrightarrow>
              lacks_trailing_closer (repairJsonCommon (drop start (repairJsonCommon (trim text))))
              \<or> bracket_depth (repairJsonCommon (drop start (repairJsonCommon (trim text)))) \<noteq> 0)
         \<and> (e \<noteq> TruncatedJson \<longrightarrow>
              (\<exists>m. parse (repairJsonCommon (drop start (repairJsonCommon (trim text)))) = Inl m
                   \<and> e = InvalidJson (error_text m)))"
    if fail: "safeParseJson parse text = Inl e" and ne: "trim text \<noteq> []"
  proof (cases "first_open (repairJsonCommon (trim text))")
    case None
    with fail show ?thesis
      unfolding safeParseJson_unfold [OF ne] Let_def
      by (simp split: sum.splits)
  next
    case (Some start)
    let ?tail = "repairJsonCommon (drop start (repairJsonCommon (trim text)))"
    have lt: "looksTruncatedJson ?tail = (lacks_trailing_closer ?tail \<or> bracket_depth ?tail \<noteq> 0)"
      by (rule looksTruncatedJson_trimmed) (rule repair_trimmed)
    from fail have
      "(case parse ?tail of Inr v \<Rightarrow> Inr v
        | Inl m \<Rightarrow> if looksTruncatedJson ?tail then Inl TruncatedJson
                   else Inl (InvalidJson (error_text m))) = Inl e"
      unfolding safeParseJson_unfold [OF ne] Let_def Some
      by (auto split: sum.splits option.splits)
    then obtain m where m: "parse ?tail = Inl m"
      and e: "e = (if looksTruncatedJson ?tail then TruncatedJson else InvalidJson (error_text m))"
      by (auto split: sum.splits if_splits)
    from m e lt Some show ?thesis by auto
  qed
  with truncated_answer_classified not_json_classified show ?thesis by blast
qed

lemma two_objects_trim: "trim two_objects = two_objects"
  by (simp add: two_objects_def asc_def trim_def is_space_def)

lemma two_objects_repair: "repairJsonCommon two_objects = two_objects"
  by (simp add: two_objects_def repair_eval)

lemma two_objects_fails: "json_parse two_objects = Inl JSON_SYNTAX_ERROR"
  by (simp add: two_objects_def asc_def json_eval)

lemma two_objects_first_open: "first_open two_objects = Some 0"
  by (simp add: first_open_def two_objects_def asc_def)

lemma two_objects_last_end: "findLastBalancedJsonEnd two_objects 0 = Some 14"
  by (simp add: findLastBalancedJsonEnd_def two_objects_def asc_def)

lemma two_objects_first_end: "first_balanced_end two_objects 0 = Some 6"
  by (simp add: first_balanced_end_def closes_to_zero_def zero_at_def two_objects_def asc_def
      upt_rec [of 0] upt_rec [of "Suc n" for n] upt_rec [of "numeral n" for n])

lemma two_objects_first_structure:
  "json_parse (slice two_objects 0 7) = Inr (JObj [(asc ''a'', JNum 1)])"
  by (simp add: slice_def two_objects_def asc_def json_eval)

lemma two_objects_not_truncated: "\<not> looksTruncatedJson two_objects"
  by (simp add: looksTruncatedJson_def two_objects_trim Let_def ends_with_closer_def)
     (simp add: two_objects_def asc_def is_space_def)

lemma two_objects_result:
  "safeParseJson json_parse two_objects = Inl (InvalidJson JSON_SYNTAX_ERROR)"
proof -
  have ne: "trim two_objects \<noteq> []"
    by (simp add: two_objects_trim) (simp add: two_objects_def asc_def)
  have sl: "slice two_objects 0 15 = two_objects"
    by (simp add: slice_def two_objects_def asc_def)
  have et: "error_text JSON_SYNTAX_ERROR = JSON_SYNTAX_ERROR"
    by (simp add: error_text_def JSON_SYNTAX_ERROR_def asc_def)
  show ?thesis
    by (simp add: safeParseJson_unfold [OF ne] two_objects_trim Let_def two_objects_repair
        two_objects_fails two_objects_first_open two_objects_last_end sl
        two_objects_not_truncated et)
qed
theorem safeParseJson_failure_classification_witness:
  "safeParseJson json_parse two_objects = Inl (InvalidJson JSON_SYNTAX_ERROR)
   \<and> trim two_objects \<noteq> []
   \<and> first_open (repairJsonCommon (trim two_objects)) = Some 0
   \<and> \<not> lacks_trailing_closer (repairJsonCommon (drop 0 (repairJsonCommon (trim two_objects))))
   \<and> bracket_depth (repairJsonCommon (drop 0 (repairJsonCommon (trim two_objects)))) = 0"
proof -
  have ne: "trim two_objects \<noteq> []"
    by (simp add: two_objects_trim) (simp add: two_objects_def asc_def)
  have "InvalidJson JSON_SYNTAX_ERROR \<noteq> TruncatedJson" by simp
  with safeParseJson_failure_classification
    [of json_parse two_objects "InvalidJson JSON_SYNTAX_ERROR"]
    two_objects_result ne
  show ?thesis
    by (simp add: two_objects_trim two_objects_repair two_objects_first_open)
qed

lemma first_open_bound: "first_open s = Some start \<Longrightarrow> start < length s"
proof -
  assume a: "first_open s = Some start"
  let ?P = "\<lambda>c. c = 123 \<or> c = (91::nat)"
  from a have nn: "0 \<le> findIndex ?P s" and st: "start = nat (findIndex ?P s)"
    by (auto simp: first_open_def Let_def split: if_splits)
  have "\<exists>x \<in> set s. ?P x"
  proof (rule ccontr)
    assume "\<not> (\<exists>x \<in> set s. ?P x)"
    then have "findIndex ?P s = - 1" by (intro findIndex_missing) blast
    with nn show False by simp
  qed
  from findIndex_found [of s ?P, OF this] st show ?thesis by simp
qed

text \<open>
  C1, as stated, at the text of two top-level objects \<open>{"a":1} {"b":2}\<close>: the direct parse
  fails, the scan starts at index 0 and the depth first returns to zero at index 6, the end
  of the first object, which alone parses; the candidate of the code ends at index 14, the
  end of the second object, and \<open>safeParseJson\<close> fails instead of recovering the first.
\<close>

theorem first_structure_not_recovered_counterexample:
  "json_parse (repairJsonCommon (trim two_objects)) = Inl JSON_SYNTAX_ERROR
   \<and> first_open (repairJsonCommon (trim two_objects)) = Some 0
   \<and> first_balanced_end (repairJsonCommon (trim two_objects)) 0 = Some 6
   \<and> findLastBalancedJsonEnd (repairJsonCommon (trim two_objects)) 0 = Some 14
   \<and> json_parse (slice (repairJsonCommon (trim two_objects)) 0 7)
       = Inr (JObj [(asc ''a'', JNum 1)])
   \<and> safeParseJson json_parse two_objects = Inl (InvalidJson JSON_SYNTAX_ERROR)"
  by (simp add: two_objects_trim two_objects_repair two_objects_fails two_objects_first_open
      two_objects_first_end two_objects_last_end two_objects_first_structure two_objects_result)

text \<open>
  C1, amended. The candidate of \<open>safeParseJson\<close> ends at the last index at which a closer
  outside strings returns the depth, counted from the start, to exactly zero. When the
  direct parse of a non-blank text fails and the repaired text has a first \<open>{\<close> or \<open>[\<close>,
  the result is the parse of the repaired candidate from there to that last index if it
  parses, else the parse of the repaired tail from there to the end of the text if that
  parses; and nothing else is ever recovered.
\<close>

theorem safeParseJson_recovers_last_balanced:
  "(start \<le> length s \<longrightarrow> findLastBalancedJsonEnd s start = last_balanced_end s start)
   \<and> (trim text \<noteq> [] \<and> parse (repairJsonCommon (trim text)) = Inl m
        \<and> first_open (repairJsonCommon (trim text)) = Some from \<longrightarrow>
      (let cleaned = repairJsonCommon (trim text);
           candidate = map_option (\<lambda>e. repairJsonCommon (slice cleaned from (e + 1)))
                         (last_balanced_end cleaned from);
           tail = repairJsonCommon (drop from cleaned)
       in (\<forall>c v. candidate = Some c \<and> parse c = Inr v \<longrightarrow> safeParseJson parse text = Inr v)
        \<and> (\<forall>v. (candidate = None \<or> (\<exists>c m'. candidate = Some c \<and> parse c = Inl m'))
                \<and> parse tail = Inr v \<longrightarrow> safeParseJson parse text = Inr v)
        \<and> (\<forall>v. safeParseJson parse text = Inr v \<longrightarrow>
                (\<exists>c. candidate = Some c \<and> parse c = Inr v) \<or> parse tail = Inr v)))"
proof -
  have 1: "start \<le> length s \<longrightarrow> findLastBalancedJsonEnd s start = last_balanced_end s start"
    by (simp add: findLastBalancedJsonEnd_is_last)
  have 2: "(let cleaned = repairJsonCommon (trim text);
           candidate = map_option (\<lambda>e. repairJsonCommon (slice cleaned from (e + 1)))
                         (last_balanced_end cleaned from);
           tail = repairJsonCommon (drop from cleaned)
       in (\<forall>c v. candidate = Some c \<and> parse c = Inr v \<longrightarrow> safeParseJson parse text = Inr v)
        \<and> (\<forall>v. (candidate = None \<or> (\<exists>c m'. candidate = Some c \<and> parse c = Inl m'))
                \<and> parse tail = Inr v \<longrightarrow> safeParseJson parse text = Inr v)
        \<and> (\<forall>v. safeParseJson parse text = Inr v \<longrightarrow>
                (\<exists>c. candidate = Some c \<and> parse c = Inr v) \<or> parse tail = Inr v))"
    if ne: "trim text \<noteq> []" and fail: "parse (repairJsonCommon (trim text)) = Inl m"
      and fo: "first_open (repairJsonCommon (trim text)) = Some from"
  proof -
    have le: "from \<le> length (repairJsonCommon (trim text))"
      using first_open_bound [OF fo] by simp
    have fl: "findLastBalancedJsonEnd (repairJsonCommon (trim text)) from
        = last_balanced_end (repairJsonCommon (trim text)) from"
      using le by (rule findLastBalancedJsonEnd_is_last)
    show ?thesis
      by (auto simp: safeParseJson_unfold [OF ne] Let_def fail fo fl
          split: option.splits sum.splits)
  qed
  from 1 2 show ?thesis by blast
qed

theorem safeParseJson_recovers_last_balanced_witness:
  "trim wrapped_answer \<noteq> []
   \<and> json_parse (repairJsonCommon (trim wrapped_answer)) = Inl JSON_SYNTAX_ERROR
   \<and> first_open (repairJsonCommon (trim wrapped_answer)) = Some 8
   \<and> last_balanced_end (repairJsonCommon (trim wrapped_answer)) 8 = Some 14
   \<and> safeParseJson json_parse wrapped_answer = Inr (JObj [(asc ''a'', JNum 1)])"
proof -
  have t: "trim wrapped_answer = wrapped_answer"
    by (simp add: wrapped_answer_def asc_def trim_def is_space_def)
  have ne: "trim wrapped_answer \<noteq> []"
    by (simp add: t) (simp add: wrapped_answer_def asc_def)
  have r: "repairJsonCommon wrapped_answer = wrapped_answer"
    by (simp add: wrapped_answer_def repair_eval)
  have p: "json_parse wrapped_answer = Inl JSON_SYNTAX_ERROR"
    by (simp add: wrapped_answer_def asc_def json_eval)
  have fo: "first_open wrapped_answer = Some 8"
    by (simp add: first_open_def wrapped_answer_def asc_def)
  have fl: "findLastBalancedJsonEnd wrapped_answer 8 = Some 14"
    by (simp add: findLastBalancedJsonEnd_def wrapped_answer_def asc_def)
  have len: "(8::nat) \<le> length wrapped_answer"
    by (simp add: wrapped_answer_def asc_def)
  have c: "repairJsonCommon (slice wrapped_answer 8 (14 + 1)) = asc ''{\"a\":1}''"
    by (simp add: slice_def wrapped_answer_def repair_eval)
  have pc: "json_parse (asc ''{\"a\":1}'') = Inr (JObj [(asc ''a'', JNum 1)])"
    by (simp add: asc_def json_eval)
  note th = safeParseJson_recovers_last_balanced
    [of 8 wrapped_answer wrapped_answer json_parse JSON_SYNTAX_ERROR 8]
  from th len fl have le: "last_balanced_end wrapped_answer 8 = Some 14" by simp
  from th ne p fo le c pc
  have "safeParseJson json_parse wrapped_answer = Inr (JObj [(asc ''a'', JNum 1)])"
    by (simp add: t r Let_def)
  with ne p fo le show ?thesis by (simp add: t r)
qed

section \<open>The round trip through the repairs\<close>

lemma strip_fences_step:
  "strip_fences (c # cs) =
     (if fence_at (c # cs)
      then (if map lower_ascii (take 4 (drop 3 (c # cs))) = [106, 115, 111, 110]
            then strip_fences (drop 7 (c # cs)) else strip_fences (drop 3 (c # cs)))
      else c # strip_fences cs)"
  by (simp add: fence_at_def)

lemma remove_ticks_step:
  "remove_ticks (c # cs) =
     (if fence_at (c # cs) then remove_ticks (drop 3 (c # cs)) else c # remove_ticks cs)"
  by (simp add: fence_at_def)

lemma join_gap_step:
  "join_gap cl op (c # cs) =
     (if gap_at cl op (c # cs)
      then cl # 44 # op # join_gap cl op (tl (dropWhile is_space cs))
      else c # join_gap cl op cs)"
  by (simp add: gap_at_def)

lemma strip_trailing_commas_step:
  "strip_trailing_commas (c # cs) =
     (if comma_at (c # cs)
      then hd (dropWhile is_space cs) # strip_trailing_commas (tl (dropWhile is_space cs))
      else c # strip_trailing_commas cs)"
  by (simp add: comma_at_def)

lemma strip_fences_free: "free_in fence_at s t \<Longrightarrow> strip_fences (s @ t) = s @ strip_fences t"
  by (induction s) (simp_all add: strip_fences_step del: strip_fences.simps)

lemma remove_ticks_free: "free_in fence_at s t \<Longrightarrow> remove_ticks (s @ t) = s @ remove_ticks t"
  by (induction s) (simp_all add: remove_ticks_step del: remove_ticks.simps)

lemma join_gap_free:
  "free_in (gap_at cl op) s t \<Longrightarrow> join_gap cl op (s @ t) = s @ join_gap cl op t"
  by (induction s) (simp_all add: join_gap_step del: join_gap.simps)

lemma strip_trailing_commas_free:
  "free_in comma_at s t \<Longrightarrow> strip_trailing_commas (s @ t) = s @ strip_trailing_commas t"
  by (induction s) (simp_all add: strip_trailing_commas_step del: strip_trailing_commas.simps)

lemma free_in_append: "free_in M (a @ s) t = (free_in M a (s @ t) \<and> free_in M s t)"
  by (induction a) auto

lemma fence_at_context:
  "\<not> fence_at (x # xs) \<Longrightarrow> t = [] \<or> hd t \<noteq> 96 \<Longrightarrow> \<not> fence_at (x # xs @ t)"
proof (cases xs)
  case Nil
  assume "t = [] \<or> hd t \<noteq> 96"
  with Nil show ?thesis by (cases t) (auto simp: fence_at_def)
next
  case (Cons y ys)
  assume nf: "\<not> fence_at (x # xs)" and t: "t = [] \<or> hd t \<noteq> 96"
  show ?thesis
  proof (cases ys)
    case Nil
    with Cons t show ?thesis by (cases t) (auto simp: fence_at_def)
  next
    case (Cons z zs)
    with \<open>xs = y # ys\<close> nf show ?thesis by (simp add: fence_at_def)
  qed
qed

lemma fence_free_context:
  "free_in fence_at s [] \<Longrightarrow> t = [] \<or> hd t \<noteq> 96 \<Longrightarrow> free_in fence_at s t"
  by (induction s) (auto dest: fence_at_context)

lemma fence_at_prefix: "fence_at (x # xs) \<Longrightarrow> fence_at (x # xs @ t)"
  by (cases xs; cases "tl xs") (auto simp: fence_at_def)

lemma fence_free_drop_context: "free_in fence_at s t \<Longrightarrow> free_in fence_at s []"
  by (induction s) (auto dest: fence_at_prefix)

lemma gap_at_context:
  assumes "dropWhile is_space t = [] \<or> hd (dropWhile is_space t) \<noteq> op"
  shows "gap_at cl op (x # xs @ t) \<Longrightarrow> gap_at cl op (x # xs)"
  using assms
  by (auto simp: gap_at_def takeWhile_append dropWhile_append split: if_splits)

lemma gap_free_context:
  assumes "dropWhile is_space t = [] \<or> hd (dropWhile is_space t) \<noteq> op"
  shows "free_in (gap_at cl op) s [] \<Longrightarrow> free_in (gap_at cl op) s t"
proof (induction s)
  case Nil
  show ?case by simp
next
  case (Cons x xs)
  then have "\<not> gap_at cl op (x # xs)" and "free_in (gap_at cl op) xs t" by simp_all
  with gap_at_context [OF assms, of cl x xs] show ?case by auto
qed

lemma gap_at_prefix: "gap_at cl op (x # xs) \<Longrightarrow> gap_at cl op (x # xs @ t)"
  by (auto simp: gap_at_def takeWhile_append dropWhile_append split: if_splits)

lemma gap_free_drop_context: "free_in (gap_at cl op) s t \<Longrightarrow> free_in (gap_at cl op) s []"
  by (induction s) (auto dest: gap_at_prefix)

lemma comma_at_context:
  assumes "dropWhile is_space t = []
      \<or> (hd (dropWhile is_space t) \<noteq> 125 \<and> hd (dropWhile is_space t) \<noteq> 93)"
  shows "comma_at (x # xs @ t) \<Longrightarrow> comma_at (x # xs)"
  using assms
  by (auto simp: comma_at_def dropWhile_append split: if_splits)

lemma comma_free_context:
  assumes "dropWhile is_space t = []
      \<or> (hd (dropWhile is_space t) \<noteq> 125 \<and> hd (dropWhile is_space t) \<noteq> 93)"
  shows "free_in comma_at s [] \<Longrightarrow> free_in comma_at s t"
proof (induction s)
  case Nil
  show ?case by simp
next
  case (Cons x xs)
  then have "\<not> comma_at (x # xs)" and "free_in comma_at xs t" by simp_all
  with comma_at_context [OF assms, of x xs] show ?case by auto
qed

lemma comma_at_prefix: "comma_at (x # xs) \<Longrightarrow> comma_at (x # xs @ t)"
  by (auto simp: comma_at_def dropWhile_append split: if_splits)

lemma comma_free_drop_context: "free_in comma_at s t \<Longrightarrow> free_in comma_at s []"
  by (induction s) (auto dest: comma_at_prefix)
lemma straighten_plain:
  "list_all (\<lambda>c. \<not> curly_quote c) r \<Longrightarrow>
   map straighten_single (map straighten_double r) = r"
  by (induction r) (auto simp: curly_quote_def straighten_single_def straighten_double_def)

lemma repair_tail_free:
  assumes "free_in (gap_at 125 123) s []" "free_in (gap_at 93 91) s []" "free_in comma_at s []"
  shows "strip_trailing_commas (join_gap 93 91 (join_gap 125 123 s)) = s"
  using join_gap_free [OF assms(1)] join_gap_free [OF assms(2)]
    strip_trailing_commas_free [OF assms(3)]
  by simp

lemma repair_untouched: "untouched_by_repair r \<Longrightarrow> repairJsonCommon r = r"
proof -
  assume u: "untouched_by_repair r"
  then have f: "free_in fence_at r []" and q: "list_all (\<lambda>c. \<not> curly_quote c) r"
    and g: "free_in (gap_at 125 123) r []" "free_in (gap_at 93 91) r []"
    and c: "free_in comma_at r []"
    and e: "r \<noteq> [] \<longrightarrow> \<not> is_space (hd r) \<and> \<not> is_space (last r)"
    by (simp_all add: untouched_by_repair_def)
  have 1: "strip_fences r = r" using strip_fences_free [OF f] by simp
  have 2: "remove_ticks r = r" using remove_ticks_free [OF f] by simp
  show ?thesis
    unfolding repairJsonCommon_def 1 2 straighten_plain [OF q] repair_tail_free [OF g c]
    using e by (rule trim_fixed)
qed

lemma trim_padded:
  assumes "r \<noteq> []" "\<not> is_space (hd r)" "\<not> is_space (last r)"
  shows "trim (10 # r @ [10]) = r"
proof -
  from assms have 1: "dropWhile is_space (r @ [10]) = r @ [10]"
    by (cases r) simp_all
  from assms have 2: "dropWhile is_space (rev r) = rev r"
    by (cases "rev r") (simp_all add: last_rev [symmetric] del: last_rev)
  show ?thesis
    by (simp add: trim_def is_space_def [of 10] 1 2)
qed

lemma repair_with_fences:
  assumes u: "untouched_by_repair r"
  shows "repairJsonCommon (with_fences r) = r"
proof -
  from u have f: "free_in fence_at r []" and q: "list_all (\<lambda>c. \<not> curly_quote c) r"
    and g1: "free_in (gap_at 125 123) r []" and g2: "free_in (gap_at 93 91) r []"
    and c: "free_in comma_at r []"
    and e: "r \<noteq> []" "\<not> is_space (hd r)" "\<not> is_space (last r)"
    by (simp_all add: untouched_by_repair_def)
  have sp: "dropWhile is_space [10] = []" by (simp add: is_space_def)
  have a: "strip_fences (with_fences r) = strip_fences ((10 # r) @ [10, 96, 96, 96])"
    by (simp add: with_fences_def asc_def lower_ascii_def)
  have "free_in fence_at r [10, 96, 96, 96]"
    using f by (rule fence_free_context) simp
  then have "free_in fence_at (10 # r) [10, 96, 96, 96]"
    by (simp add: fence_at_def)
  from strip_fences_free [OF this] a
  have 1: "strip_fences (with_fences r) = (10 # r) @ [10]" by simp
  have "free_in fence_at r [10]" using f by (rule fence_free_context) simp
  then have "free_in fence_at (10 # r) [10]" by (simp add: fence_at_def)
  from remove_ticks_free [OF this]
  have 2: "remove_ticks ((10 # r) @ [10]) = (10 # r) @ [10]" by simp
  have 3: "map straighten_single (map straighten_double ((10 # r) @ [10])) = (10 # r) @ [10]"
    using q by (intro straighten_plain) (simp add: curly_quote_def)
  have "free_in (gap_at 125 123) r [10]" using _ g1 by (rule gap_free_context) (simp add: sp)
  then have "free_in (gap_at 125 123) (10 # r) [10]" by (simp add: gap_at_def)
  from join_gap_free [OF this]
  have 4: "join_gap 125 123 ((10 # r) @ [10]) = (10 # r) @ [10]" by simp
  have "free_in (gap_at 93 91) r [10]" using _ g2 by (rule gap_free_context) (simp add: sp)
  then have "free_in (gap_at 93 91) (10 # r) [10]" by (simp add: gap_at_def)
  from join_gap_free [OF this]
  have 5: "join_gap 93 91 ((10 # r) @ [10]) = (10 # r) @ [10]" by simp
  have "free_in comma_at r [10]" using _ c by (rule comma_free_context) (simp add: sp)
  then have "free_in comma_at (10 # r) [10]" by (simp add: comma_at_def)
  from strip_trailing_commas_free [OF this]
  have 6: "strip_trailing_commas ((10 # r) @ [10]) = (10 # r) @ [10]" by simp
  show ?thesis
    unfolding repairJsonCommon_def 1 2 3 4 5 6
    using trim_padded [OF e] by simp
qed

lemma with_fences_trim: "trim (with_fences r) = with_fences r"
  by (rule trim_fixed) (simp add: with_fences_def asc_def is_space_def)
lemma curly_of_Cons:
  "curly_of r (x' # xs') \<longleftrightarrow>
     (\<exists>x xs. r = x # xs \<and> (x' = x \<or> (x = 34 \<and> (x' = 8220 \<or> x' = 8221))) \<and> curly_of xs xs')"
  by (auto simp: curly_of_def list_all2_Cons2)

lemma curly_fence: "curly_of r r' \<Longrightarrow> fence_at r' \<Longrightarrow> fence_at r"
proof -
  assume c: "curly_of r r'" and f: "fence_at r'"
  from f have "take 3 r' @ drop 3 r' = [96, 96, 96] @ drop 3 r'"
    by (simp only: fence_at_def)
  then have r': "r' = 96 # 96 # 96 # drop 3 r'" by (simp only: append_take_drop_id) simp
  from c obtain x y z t where "r = x # y # z # t" "x = 96" "y = 96" "z = 96"
    by (subst (asm) r') (auto simp: curly_of_Cons)
  then show ?thesis by (simp add: fence_at_def)
qed

lemma curly_fence_free: "curly_of r r' \<Longrightarrow> free_in fence_at r [] \<Longrightarrow> free_in fence_at r' []"
proof (induction r' arbitrary: r)
  case Nil
  show ?case by simp
next
  case (Cons x' xs')
  from Cons.prems(1) obtain x xs where r: "r = x # xs" and t: "curly_of xs xs'"
    by (auto simp: curly_of_Cons)
  from Cons.prems(2) r have "\<not> fence_at (x # xs)" "free_in fence_at xs []" by simp_all
  with Cons.IH [OF t] curly_fence [OF Cons.prems(1)] r show ?case by auto
qed

lemma curly_straighten:
  "curly_of r r' \<Longrightarrow> list_all (\<lambda>c. \<not> curly_quote c) r \<Longrightarrow> map straighten_double r' = r"
proof (induction r' arbitrary: r)
  case Nil
  then show ?case by (simp add: curly_of_def)
next
  case (Cons x' xs')
  from Cons.prems(1) obtain x xs where r: "r = x # xs"
    and h: "x' = x \<or> (x = 34 \<and> (x' = 8220 \<or> x' = 8221))" and t: "curly_of xs xs'"
    by (auto simp: curly_of_Cons)
  from Cons.prems(2) r have nx: "\<not> curly_quote x" and q: "list_all (\<lambda>c. \<not> curly_quote c) xs"
    by simp_all
  from h nx have "straighten_double x' = x"
    by (auto simp: straighten_double_def curly_quote_def)
  with Cons.IH [OF t q] r show ?case by simp
qed

lemma curly_ends:
  assumes c: "curly_of r r'" and e: "r \<noteq> []" "\<not> is_space (hd r)" "\<not> is_space (last r)"
  shows "r' \<noteq> [] \<and> \<not> is_space (hd r') \<and> \<not> is_space (last r')"
proof -
  from c have len: "length r = length r'" by (simp add: curly_of_def list_all2_lengthD)
  with e have ne: "r' \<noteq> []" by auto
  have rel: "r' ! i = r ! i \<or> r' ! i = 8220 \<or> r' ! i = 8221" if "i < length r" for i
    using c that by (auto simp: curly_of_def list_all2_conv_all_nth)
  have q: "\<not> is_space 8220" "\<not> is_space 8221" by (simp_all add: is_space_def)
  from e(1) len have h: "hd r' = r' ! 0" "hd r = r ! 0" "0 < length r"
    using ne by (simp_all add: hd_conv_nth)
  from e(1) len have l: "last r' = r' ! (length r - 1)" "last r = r ! (length r - 1)"
      "length r - 1 < length r"
    using ne by (simp_all add: last_conv_nth)
  from rel [OF h(3)] e(2) q have "\<not> is_space (hd r')"
    unfolding h(1,2) by metis
  moreover from rel [OF l(3)] e(3) q have "\<not> is_space (last r')"
    unfolding l(1,2) by metis
  ultimately show ?thesis using ne by simp
qed

lemma repair_curly:
  assumes u: "untouched_by_repair r" and c: "curly_of r r'"
  shows "repairJsonCommon r' = r" and "trim r' = r'" and "r' \<noteq> []"
proof -
  from u have f: "free_in fence_at r []" and q: "list_all (\<lambda>c. \<not> curly_quote c) r"
    and g: "free_in (gap_at 125 123) r []" "free_in (gap_at 93 91) r []"
    and cm: "free_in comma_at r []"
    and e: "r \<noteq> []" "\<not> is_space (hd r)" "\<not> is_space (last r)"
    by (simp_all add: untouched_by_repair_def)
  note f' = curly_fence_free [OF c f]
  have 1: "strip_fences r' = r'" using strip_fences_free [OF f'] by simp
  have 2: "remove_ticks r' = r'" using remove_ticks_free [OF f'] by simp
  have "map straighten_single r = r"
    using q by (induction r) (auto simp: curly_quote_def straighten_single_def)
  then have 3: "map straighten_single (map straighten_double r') = r"
    by (simp only: curly_straighten [OF c q])
  show "repairJsonCommon r' = r"
    unfolding repairJsonCommon_def 1 2 3 repair_tail_free [OF g cm]
    using e by (intro trim_fixed) simp
  from curly_ends [OF c e] show "trim r' = r'" by (intro trim_fixed) simp
  from curly_ends [OF c e] show "r' \<noteq> []" by simp
qed

lemma repair_stray_comma:
  assumes u: "untouched_by_repair (a @ c # b)" and cl: "c = 125 \<or> c = 93"
  shows "repairJsonCommon (a @ 44 # c # b) = a @ c # b"
    and "trim (a @ 44 # c # b) = a @ 44 # c # b"
proof -
  let ?r = "a @ c # b"
  let ?t = "44 # c # b"
  from u have f: "free_in fence_at ?r []" and q: "list_all (\<lambda>c. \<not> curly_quote c) ?r"
    and g1: "free_in (gap_at 125 123) ?r []" and g2: "free_in (gap_at 93 91) ?r []"
    and cm: "free_in comma_at ?r []"
    and e: "\<not> is_space (hd ?r)" "\<not> is_space (last ?r)"
    by (simp_all add: untouched_by_repair_def)
  have ns: "\<not> is_space 44" "\<not> is_space c" using cl by (auto simp: is_space_def)
  have dw: "dropWhile is_space ?t = ?t" using ns by simp
  \<comment> \<open>code fences\<close>
  from f have fa: "free_in fence_at a (c # b)" and fb: "free_in fence_at (c # b) []"
    by (simp_all add: free_in_append)
  from fa have "free_in fence_at a []" by (rule fence_free_drop_context)
  then have "free_in fence_at a ?t" by (rule fence_free_context) simp
  moreover have "\<not> fence_at ?t" by (simp add: fence_at_def)
  ultimately have f': "free_in fence_at (a @ ?t) []"
    using fb by (simp add: free_in_append)
  have 1: "strip_fences (a @ ?t) = a @ ?t" using strip_fences_free [OF f'] by simp
  have 2: "remove_ticks (a @ ?t) = a @ ?t" using remove_ticks_free [OF f'] by simp
  \<comment> \<open>quotes\<close>
  from q have "list_all (\<lambda>c. \<not> curly_quote c) (a @ ?t)" by (simp add: curly_quote_def)
  then have 3: "map straighten_single (map straighten_double (a @ ?t)) = a @ ?t"
    by (rule straighten_plain)
  \<comment> \<open>gaps\<close>
  have gap: "join_gap k op (a @ ?t) = a @ ?t"
    if g: "free_in (gap_at k op) ?r []" and k: "k \<noteq> 44" and op: "op \<noteq> 44" for k op
  proof -
    from g have ga: "free_in (gap_at k op) a (c # b)" and gb: "free_in (gap_at k op) (c # b) []"
      by (simp_all add: free_in_append)
    from ga have ga0: "free_in (gap_at k op) a []" by (rule gap_free_drop_context)
    have "dropWhile is_space ?t = [] \<or> hd (dropWhile is_space ?t) \<noteq> op"
      using op by (simp only: dw list.sel) simp
    from this ga0 have "free_in (gap_at k op) a ?t"
      by (rule gap_free_context)
    then have "free_in (gap_at k op) a ?t" .
    moreover have "\<not> gap_at k op ?t" using k by (simp add: gap_at_def)
    ultimately have "free_in (gap_at k op) (a @ ?t) []"
      using gb by (simp add: free_in_append)
    from join_gap_free [OF this] show ?thesis by simp
  qed
  have 4: "join_gap 125 123 (a @ ?t) = a @ ?t" using g1 by (rule gap) simp_all
  have 5: "join_gap 93 91 (a @ ?t) = a @ ?t" using g2 by (rule gap) simp_all
  \<comment> \<open>the stray comma\<close>
  from cm have ca1: "free_in comma_at a (c # b)" and cb: "free_in comma_at (c # b) []"
    by (simp_all add: free_in_append)
  from ca1 have ca0: "free_in comma_at a []" by (rule comma_free_drop_context)
  have "dropWhile is_space ?t = []
      \<or> (hd (dropWhile is_space ?t) \<noteq> 125 \<and> hd (dropWhile is_space ?t) \<noteq> 93)"
    by (simp only: dw list.sel) simp
  from this ca0 have ca: "free_in comma_at a ?t"
    by (rule comma_free_context)
  from cb have "free_in comma_at b []" by simp
  from strip_trailing_commas_free [OF this] have sb: "strip_trailing_commas b = b" by simp
  have dwc: "dropWhile is_space (c # b) = c # b" using ns(2) by simp
  have "comma_at ?t" unfolding comma_at_def list.sel dwc using cl by simp
  then have "strip_trailing_commas ?t
      = hd (dropWhile is_space (c # b)) # strip_trailing_commas (tl (dropWhile is_space (c # b)))"
    by (simp only: strip_trailing_commas_step if_True)
  then have "strip_trailing_commas ?t = c # b"
    by (simp only: dwc list.sel sb)
  with strip_trailing_commas_free [OF ca]
  have 6: "strip_trailing_commas (a @ ?t) = ?r" by simp
  have tr: "trim ?r = ?r" using e by (intro trim_fixed) simp
  show "repairJsonCommon (a @ ?t) = ?r"
    unfolding repairJsonCommon_def 1 2 3 4 5 6 by (rule tr)
  have "\<not> is_space (hd (a @ ?t))" using e(1) ns by (cases a) simp_all
  moreover have "\<not> is_space (last (a @ ?t))" using e(2) by simp
  ultimately show "trim (a @ ?t) = a @ ?t" by (intro trim_fixed) simp
qed
lemma safeParseJson_direct:
  "trim text \<noteq> [] \<Longrightarrow> parse (repairJsonCommon (trim text)) = Inr X \<Longrightarrow>
   safeParseJson parse text = Inr X"
  by (simp add: safeParseJson_unfold Let_def)

text \<open>
  C4, as stated, at the JSON value that is the string \<open>a,]\<close>: its rendering \<open>"a,]"\<close> parses
  to it, but between code fences the repair takes the comma before the bracket for a
  trailing comma and the recovery parser returns the string \<open>a]\<close>.
\<close>

theorem string_with_comma_bracket_counterexample:
  "json_parse comma_bracket_string = Inr (JStr (asc ''a,]''))
   \<and> safeParseJson json_parse (with_fences comma_bracket_string) = Inr (JStr (asc ''a]''))
   \<and> JStr (asc ''a]'') \<noteq> JStr (asc ''a,]'')"
proof -
  have p: "json_parse comma_bracket_string = Inr (JStr (asc ''a,]''))"
    by (simp add: comma_bracket_string_def asc_def json_eval)
  have ne: "trim (with_fences comma_bracket_string) \<noteq> []"
    by (simp add: with_fences_trim) (simp add: with_fences_def asc_def)
  have r: "repairJsonCommon (with_fences comma_bracket_string) = asc ''\"a]\"''"
    by (simp add: with_fences_def comma_bracket_string_def repair_eval)
  have p2: "json_parse (asc ''\"a]\"'') = Inr (JStr (asc ''a]''))"
    by (simp add: asc_def json_eval)
  have "safeParseJson json_parse (with_fences comma_bracket_string) = Inr (JStr (asc ''a]''))"
    using ne by (rule safeParseJson_direct) (simp add: with_fences_trim r p2)
  with p show ?thesis by (simp add: asc_def)
qed

text \<open>
  C4, amended. Let a text parse to the value X and be one the repairs leave alone: no code
  fence, no curly quote, no closer and opener with only a line break between them, no comma
  before a closer, no white space at either end (in the rendering of a JSON value such
  sequences can only stand inside strings). Then the repair returns the text itself, and
  the recovery parser returns X for the text between code fences, for the text with curly
  double quotes in place of some or all of its straight ones, and for the text with a stray
  comma inserted right before any of its closers.
\<close>

theorem repaired_wrappings_round_trip:
  assumes "parse r = Inr X" and "untouched_by_repair r"
  shows "repairJsonCommon r = r
       \<and> safeParseJson parse (with_fences r) = Inr X
       \<and> (\<forall>r'. curly_of r r' \<longrightarrow> safeParseJson parse r' = Inr X)
       \<and> (\<forall>a c b. r = a @ c # b \<and> (c = 125 \<or> c = 93) \<longrightarrow>
            safeParseJson parse (a @ 44 # c # b) = Inr X)"
proof -
  note u = assms(2)
  have 1: "repairJsonCommon r = r" using u by (rule repair_untouched)
  have "trim (with_fences r) \<noteq> []"
    by (simp add: with_fences_trim) (simp add: with_fences_def)
  then have 2: "safeParseJson parse (with_fences r) = Inr X"
    by (rule safeParseJson_direct) (simp add: with_fences_trim repair_with_fences [OF u] assms(1))
  have 3: "safeParseJson parse r' = Inr X" if c: "curly_of r r'" for r'
  proof -
    note rc = repair_curly [OF u c]
    from rc(2,3) have "trim r' \<noteq> []" by simp
    then show ?thesis
      by (rule safeParseJson_direct) (simp add: rc assms(1))
  qed
  have 4: "safeParseJson parse (a @ 44 # c # b) = Inr X"
    if r: "r = a @ c # b" and cl: "c = 125 \<or> c = 93" for a c b
  proof -
    from u r have u': "untouched_by_repair (a @ c # b)" by simp
    note rs = repair_stray_comma [OF u' cl]
    have "trim (a @ 44 # c # b) \<noteq> []" by (simp add: rs(2))
    then show ?thesis
      by (rule safeParseJson_direct) (simp add: rs r [symmetric] assms(1))
  qed
  from 1 2 3 4 show ?thesis by blast
qed

theorem repaired_wrappings_round_trip_witness:
  "json_parse small_object = Inr (JObj [(asc ''a'', JArr [JNum 1, JNum 2])])
   \<and> untouched_by_repair small_object
   \<and> curly_of small_object small_object_curly
   \<and> safeParseJson json_parse (with_fences small_object)
       = Inr (JObj [(asc ''a'', JArr [JNum 1, JNum 2])])
   \<and> safeParseJson json_parse small_object_curly
       = Inr (JObj [(asc ''a'', JArr [JNum 1, JNum 2])])
   \<and> safeParseJson json_parse (asc ''{\"a\":[1,2,]}'')
       = Inr (JObj [(asc ''a'', JArr [JNum 1, JNum 2])])"
proof -
  have p: "json_parse small_object = Inr (JObj [(asc ''a'', JArr [JNum 1, JNum 2])])"
    by (simp add: small_object_def asc_def json_eval)
  have u: "untouched_by_repair small_object"
    by (simp add: untouched_by_repair_def small_object_def asc_def is_space_def fence_at_def
        gap_at_def comma_at_def curly_quote_def)
  have c: "curly_of small_object small_object_curly"
    by (simp add: curly_of_def small_object_def small_object_curly_def asc_def)
  have s: "small_object = asc ''{\"a\":[1,2'' @ 93 # asc ''}''"
    by (simp add: small_object_def asc_def)
  have t: "asc ''{\"a\":[1,2,]}'' = asc ''{\"a\":[1,2'' @ 44 # 93 # asc ''}''"
    by (simp add: asc_def)
  note th = repaired_wrappings_round_trip
    [of json_parse small_object "JObj [(asc ''a'', JArr [JNum 1, JNum 2])]", OF p u]
  from th have "safeParseJson json_parse (asc ''{\"a\":[1,2'' @ 44 # 93 # asc ''}'')
      = Inr (JObj [(asc ''a'', JArr [JNum 1, JNum 2])])"
    using s by blast
  with th p u c show ?thesis by (simp only: t)
qed

section \<open>Properties of the retry collector\<close>

lemma foldl_quantity_sum:
  "foldl (\<lambda>sum item. sum + quantity item) a plan = a + sum_list (map quantity plan)"
  by (induction plan arbitrary: a) simp_all

lemma sum_list_positive:
  assumes "xs \<noteq> []" and "\<forall>x \<in> set xs. (0::int) < x"
  shows "0 < sum_list xs"
  using assms
proof (induction xs)
  case Nil
  then show ?case by simp
next
  case (Cons x xs)
  show ?case
  proof (cases "xs = []")
    case True
    with Cons.prems show ?thesis by simp
  next
    case False
    with Cons have "0 < sum_list xs" by simp
    moreover from Cons.prems have "0 < x" by simp
    ultimately show ?thesis by simp
  qed
qed

lemma plan_total_positive:
  assumes "0 < totalCount"
  shows "0 < totalQuestionsFromPlan (buildQuestionTypePlan str cfg totalCount)"
proof -
  let ?plan = "filter (\<lambda>item. quantity item > 0)
           (map (\<lambda>e. \<lparr>entry = e,
                   quantity = clampInt str
                     (JNum (of_int (setting_quantity (effective_settings cfg) (quantityKey e))))
                     0 totalCount 0\<rparr>) (enabled_types cfg))"
  have one: "totalQuestionsFromPlan [\<lparr>entry = e, quantity = totalCount\<rparr>] = totalCount" for e
    by (simp add: totalQuestionsFromPlan_def)
  have several: "0 < totalQuestionsFromPlan ?plan" if "?plan \<noteq> []"
  proof -
    have "\<forall>x \<in> set (map quantity ?plan). 0 < x" by auto
    moreover from that have "map quantity ?plan \<noteq> []" by simp
    ultimately have "0 < sum_list (map quantity ?plan)" by (rule sum_list_positive [rotated])
    then show ?thesis by (simp add: totalQuestionsFromPlan_def foldl_quantity_sum)
  qed
  show ?thesis
    unfolding buildQuestionTypePlan_unfold
    using assms one several by (simp only: length_0_conv split: if_split) simp
qed

lemma clampInt_range:
  "mn \<le> fallback \<Longrightarrow> fallback \<le> mx \<Longrightarrow> mn \<le> mx
   \<Longrightarrow> mn \<le> clampInt str n mn mx fallback \<and> clampInt str n mn mx fallback \<le> mx"
  by (simp add: clampInt_def split: option.split)

lemma clampInt_1_50:
  "1 \<le> clampInt str cnt 1 50 5 \<and> clampInt str cnt 1 50 5 \<le> 50"
  using clampInt_range [of 1 5 50 str cnt] by simp

lemma getCurrentQuiz_keeps_quizzes:
  "quizzes (snd (getCurrentQuiz app)) = quizzes app
   \<and> stored (snd (getCurrentQuiz app)) = stored app
   \<and> settings (snd (getCurrentQuiz app)) = settings app
   \<and> apiKey (snd (getCurrentQuiz app)) = apiKey app"
  by (simp add: getCurrentQuiz_def Let_def split: option.split list.split)
lemma accept_loop_bound:
  "int (length (collected st)) \<le> desired \<Longrightarrow>
   int (length (collected (accept_loop env desired en et qus st))) \<le> desired"
proof (induction qus arbitrary: st)
  case Nil
  then show ?case by simp
next
  case (Cons qu rest)
  show ?case
  proof (cases "int (length (collected st)) \<ge> desired")
    case True
    with Cons.prems show ?thesis by simp
  next
    case False
    then have lt: "int (length (collected st)) + 1 \<le> desired" by simp
    show ?thesis
      using False Cons.prems lt
      by (auto simp: split_def intro!: Cons.IH)
  qed
qed

lemma getCurrentQuiz_found:
  assumes "fst (getCurrentQuiz app) = Some quiz"
  shows "find (\<lambda>x. quiz_id x = quiz_id quiz) (quizzes app) = Some quiz"
    and "quiz_id quiz \<noteq> []"
    and "currentQuizId (snd (getCurrentQuiz app)) = Some (quiz_id quiz)"
proof -
  let ?first = "case quizzes app of [] \<Rightarrow> None | z # _ \<Rightarrow> Some (quiz_id z)"
  let ?i = "case currentQuizId app of
              Some c \<Rightarrow> if c \<noteq> [] then Some c else ?first | None \<Rightarrow> ?first"
  from assms obtain i where i: "?i = Some i" "i \<noteq> []"
    and f: "find (\<lambda>x. quiz_id x = i) (quizzes app) = Some quiz"
    by (auto simp: getCurrentQuiz_def Let_def split: option.splits if_splits)
  from f have id: "quiz_id quiz = i" by (auto simp: find_Some_iff)
  from f id show "find (\<lambda>x. quiz_id x = quiz_id quiz) (quizzes app) = Some quiz" by simp
  from i id show "quiz_id quiz \<noteq> []" by simp
  from i f id show "currentQuizId (snd (getCurrentQuiz app)) = Some (quiz_id quiz)"
    by (simp add: getCurrentQuiz_def Let_def)
qed

lemma find_update_first:
  "\<forall>x. P x \<longrightarrow> P (f x) \<Longrightarrow> find P (update_first P f xs) = map_option f (find P xs)"
  by (induction xs) simp_all

lemma getCurrentQuiz_after_update:
  assumes f: "find (\<lambda>x. quiz_id x = i) (quizzes app) = Some quiz" and i: "i \<noteq> []"
    and c: "currentQuizId app = Some i" and g: "\<forall>x. quiz_id (g x) = quiz_id x"
  shows "fst (getCurrentQuiz
           (app\<lparr>quizzes := update_first (\<lambda>x. quiz_id x = i) g (quizzes app), stored := s\<rparr>))
         = Some (g quiz)"
proof -
  have "find (\<lambda>x. quiz_id x = i) (update_first (\<lambda>x. quiz_id x = i) g (quizzes app))
        = Some (g quiz)"
    using find_update_first [of "\<lambda>x. quiz_id x = i" g "quizzes app"] g f by simp
  then show ?thesis using i c by (simp add: getCurrentQuiz_def Let_def)
qed

lemma attempts_completed_bounds:
  assumes "attempts_completed env app quiz src desired k st reqs" and "0 \<le> desired"
  shows "k \<le> 3 \<and> length reqs = k \<and> int (length (collected st)) \<le> desired
       \<and> (\<forall>r \<in> set reqs. \<exists>b. 1 \<le> b \<and> b \<le> 12
             \<and> r = build_request (String_of env) (apiKey app) (settings app) quiz src
                     (map q (questions quiz)) b)"
  using assms
proof (induction rule: attempts_completed.induct)
  case no_attempt
  then show ?case by simp
next
  case (one_more k st reqs resp parsed qus)
  let ?b = "min 12 (desired - int (length (collected st)))"
  from one_more have ih: "k \<le> 3" "length reqs = k" "int (length (collected st)) \<le> desired"
    "\<forall>r \<in> set reqs. \<exists>b. 1 \<le> b \<and> b \<le> 12
             \<and> r = build_request (String_of env) (apiKey app) (settings app) quiz src
                     (map q (questions quiz)) b"
    by simp_all
  from one_more.hyps have b: "1 \<le> ?b" "?b \<le> 12" by simp_all
  have new: "\<exists>b. 1 \<le> b \<and> b \<le> 12
      \<and> attempt_request env app quiz src desired st
          = build_request (String_of env) (apiKey app) (settings app) quiz src
              (map q (questions quiz)) b"
    unfolding attempt_request_def using b by blast
  have len: "int (length (collected (accept_loop env desired
      (fset_of_list (map normText (map q (questions quiz))))
      (map tokenSet (map q (questions quiz))) qus st))) \<le> desired"
    using ih(3) by (rule accept_loop_bound)
  from one_more.hyps ih new len show ?case by auto
qed

lemma collect_loop_continues:
  assumes "attempts_completed env app quiz src desired k st reqs"
    and "apiKey v = apiKey app" and "settings v = settings app"
  shows "collect_loop env v quiz src desired (map q (questions quiz))
           (fset_of_list (map normText (map q (questions quiz))))
           (map tokenSet (map q (questions quiz))) 0 []
           \<lparr>collected = [], collectedNorm = {||}, collectedTokenSets = [], next_random = 0\<rparr>
       = collect_loop env v quiz src desired (map q (questions quiz))
           (fset_of_list (map normText (map q (questions quiz))))
           (map tokenSet (map q (questions quiz))) k reqs st"
  using assms(1)
proof (induction rule: attempts_completed.induct)
  case no_attempt
  show ?case by simp
next
  case (one_more k st reqs resp parsed qus)
  have rq: "build_request (String_of env) (apiKey v) (settings v) quiz src
              (map q (questions quiz)) (min 12 (desired - int (length (collected st))))
            = attempt_request env app quiz src desired st"
    by (simp add: attempt_request_def assms(2,3))
  have "collect_loop env v quiz src desired (map q (questions quiz))
           (fset_of_list (map normText (map q (questions quiz))))
           (map tokenSet (map q (questions quiz))) k reqs st
      = collect_loop env v quiz src desired (map q (questions quiz))
           (fset_of_list (map normText (map q (questions quiz))))
           (map tokenSet (map q (questions quiz))) (k + 1)
           (reqs @ [attempt_request env app quiz src desired st])
           (accept_loop env desired (fset_of_list (map normText (map q (questions quiz))))
              (map tokenSet (map q (questions quiz))) qus st)"
    using one_more.hyps
    by (subst collect_loop.simps) (simp add: Let_def rq del: accept_loop.simps)
  with one_more.IH show ?case by simp
qed

lemma collect_loop_raises:
  assumes "k < 3" and "int (length (collected st)) < desired"
    and "attempt_raises env app quiz src desired k st e"
    and "apiKey v = apiKey app" and "settings v = settings app"
  shows "collect_loop env v quiz src desired (map q (questions quiz)) en et k reqs st
       = (reqs @ [attempt_request env app quiz src desired st], Inl e)"
proof -
  have rq: "build_request (String_of env) (apiKey v) (settings v) quiz src
              (map q (questions quiz)) (min 12 (desired - int (length (collected st))))
            = attempt_request env app quiz src desired st"
    by (simp add: attempt_request_def assms(4,5))
  from assms(1,2,3) show ?thesis
    by (subst collect_loop.simps)
       (auto simp: Let_def rq attempt_raises_def split: sum.splits)
qed

lemma collect_loop_ends:
  assumes "k = 3 \<or> desired \<le> int (length (collected st))"
  shows "collect_loop env v quiz src desired eq en et k reqs st = (reqs, Inr st)"
  using assms by (subst collect_loop.simps) auto

lemma attempts_exhaustive:
  assumes "attempts_completed env app quiz src desired k st reqs" and "k \<le> 3"
  shows "\<exists>k' st' reqs'. attempts_completed env app quiz src desired k' st' reqs'
      \<and> (k' = 3 \<or> desired \<le> int (length (collected st'))
          \<or> (\<exists>e. k' < 3 \<and> int (length (collected st')) < desired
                \<and> attempt_raises env app quiz src desired k' st' e))"
  using assms
proof (induction "3 - k" arbitrary: k st reqs)
  case 0
  then have "k = 3" by simp
  with "0.prems" show ?case by blast
next
  case (Suc n)
  then have k: "k < 3" by simp
  show ?case
  proof (cases "desired \<le> int (length (collected st))")
    case True
    with Suc.prems show ?thesis by blast
  next
    case False
    then have lt: "int (length (collected st)) < desired" by simp
    let ?rq = "attempt_request env app quiz src desired st"
    show ?thesis
    proof (cases "\<exists>e. attempt_raises env app quiz src desired k st e")
      case True
      with Suc.prems k lt show ?thesis by blast
    next
      case False
      then obtain resp parsed qus where
        "requestUrl env (k + 1) ?rq = Inr resp"
        "safeParseJson (JSON_parse env) (extractOutputText resp) = Inr parsed"
        "normalize_all env (k + 1) 0 (choicesCount quiz) (questions_of parsed) = Inr qus"
        by (auto simp: attempt_raises_def split: sum.splits)
           (metis old.sum.exhaust)
      from attempts_completed.one_more [OF Suc.prems(1) k lt this]
      have next_c: "attempts_completed env app quiz src desired (k + 1)
          (accept_loop env desired (fset_of_list (map normText (map q (questions quiz))))
             (map tokenSet (map q (questions quiz))) qus st) (reqs @ [?rq])" .
      from Suc.hyps(2) k have "n = 3 - (k + 1)" by simp
      moreover from k have "k + 1 \<le> 3" by simp
      ultimately show ?thesis using Suc.hyps(1) next_c by blast
    qed
  qed
qed
lemma addMore_passes:
  assumes k: "apiKey app \<noteq> []" and g: "fst (getCurrentQuiz app) = Some quiz"
    and s: "\<not> submitted quiz" and r: "resolve_source env quiz = Inr src"
    and l: "collect_loop env (snd (getCurrentQuiz app)) quiz src
              (clampInt (String_of env) cnt 1 50 5) (map q (questions quiz))
              (fset_of_list (map normText (map q (questions quiz))))
              (map tokenSet (map q (questions quiz))) 0 []
              \<lparr>collected = [], collectedNorm = {||}, collectedTokenSets = [], next_random = 0\<rparr>
            = (sent, res)"
  shows "addMoreQuestionsToCurrentQuiz env app cnt =
     (case res of
        Inl e \<Rightarrow>
          \<lparr>after = snd (getCurrentQuiz app), requests = sent, notice = None, failure = Some e\<rparr>
      | Inr st \<Rightarrow>
          if collected st = []
          then \<lparr>after = snd (getCurrentQuiz app), requests = sent, notice = None,
                failure = Some NoNewQuestions\<rparr>
          else
            (let app2 = (snd (getCurrentQuiz app))\<lparr>quizzes :=
                   update_first (\<lambda>x. quiz_id x = quiz_id quiz)
                     (\<lambda>z. z\<lparr>questions := questions z
                                @ fst (shuffleInPlace (Math_random env) (next_random st)
                                         (collected st)),
                              updated_at := nowISO env\<rparr>)
                     (quizzes app)\<rparr>
             in case write_vault env app2 of
                  Some e \<Rightarrow> \<lparr>after = app2, requests = sent, notice = None, failure = Some e\<rparr>
                | None \<Rightarrow>
                    (case view_render env (app2\<lparr>stored := quizzes app2\<rparr>) of
                       Some e \<Rightarrow>
                         \<lparr>after = app2\<lparr>stored := quizzes app2\<rparr>, requests = sent,
                          notice = None, failure = Some e\<rparr>
                     | None \<Rightarrow>
                         (case Notice env (added_notice (String_of env) (length (collected st))) of
                            Some e \<Rightarrow>
                              \<lparr>after = app2\<lparr>stored := quizzes app2\<rparr>, requests = sent,
                               notice = None, failure = Some e\<rparr>
                          | None \<Rightarrow>
                              \<lparr>after = app2\<lparr>stored := quizzes app2\<rparr>, requests = sent,
                               notice = Some (added_notice (String_of env)
                                                (length (collected st))),
                               failure = None\<rparr>))))"
proof -
  obtain app1 where g1: "getCurrentQuiz app = (Some quiz, app1)"
    using g by (cases "getCurrentQuiz app") simp
  have keep: "quizzes app1 = quizzes app" "settings app1 = settings app"
    using getCurrentQuiz_keeps_quizzes [of app] g1 by simp_all
  have "0 < clampInt (String_of env) cnt 1 50 5"
    using clampInt_1_50 [of "String_of env" cnt] by simp
  from plan_total_positive [OF this, of "String_of env" "settings app"]
  have tq: "totalQuestionsFromPlan (buildQuestionTypePlan (String_of env) (settings app)
              (clampInt (String_of env) cnt 1 50 5)) \<noteq> 0"
    by simp
  from l g1 have l1: "collect_loop env app1 quiz src
              (clampInt (String_of env) cnt 1 50 5) (map q (questions quiz))
              (fset_of_list (map normText (map q (questions quiz))))
              (map tokenSet (map q (questions quiz))) 0 []
              \<lparr>collected = [], collectedNorm = {||}, collectedTokenSets = [], next_random = 0\<rparr>
            = (sent, res)"
    by simp
  show ?thesis
    unfolding addMoreQuestionsToCurrentQuiz_def
    using k s tq l1
    by (simp add: g1 r keep Let_def saveEncrypted_def split: sum.split option.split)
qed

lemma addMore_blocked:
  assumes "apiKey app = [] \<or> fst (getCurrentQuiz app) = None
      \<or> (\<exists>quiz. fst (getCurrentQuiz app) = Some quiz
            \<and> (submitted quiz \<or> (\<exists>e. resolve_source env quiz = Inl e)))"
  shows "requests (addMoreQuestionsToCurrentQuiz env app cnt) = []
       \<and> failure (addMoreQuestionsToCurrentQuiz env app cnt) \<noteq> None
       \<and> quizzes (after (addMoreQuestionsToCurrentQuiz env app cnt)) = quizzes app
       \<and> stored (after (addMoreQuestionsToCurrentQuiz env app cnt)) = stored app"
proof (cases "apiKey app = []")
  case True
  then show ?thesis by (simp add: addMoreQuestionsToCurrentQuiz_def)
next
  case False
  obtain qo app1 where g1: "getCurrentQuiz app = (qo, app1)"
    by (cases "getCurrentQuiz app")
  have keep: "quizzes app1 = quizzes app" "stored app1 = stored app"
    using getCurrentQuiz_keeps_quizzes [of app] g1 by simp_all
  from assms False g1 have "qo = None
      \<or> (\<exists>quiz. qo = Some quiz \<and> (submitted quiz \<or> (\<exists>e. resolve_source env quiz = Inl e)))"
    by simp
  then show ?thesis
    using False
    by (auto simp: addMoreQuestionsToCurrentQuiz_def g1 keep Let_def)
qed
lemma getCurrentQuiz_updated:
  assumes "quizzes a = update_first (\<lambda>x. quiz_id x = i) g qs"
    and "find (\<lambda>x. quiz_id x = i) qs = Some quiz" and "i \<noteq> []"
    and "currentQuizId a = Some i" and "\<forall>x. quiz_id (g x) = quiz_id x"
  shows "fst (getCurrentQuiz a) = Some (g quiz)"
proof -
  have "find (\<lambda>x. quiz_id x = i) (quizzes a) = Some (g quiz)"
    using find_update_first [of "\<lambda>x. quiz_id x = i" g qs] assms(1,2,5) by simp
  then show ?thesis using assms(3,4) by (simp add: getCurrentQuiz_def Let_def)
qed

lemma addMore_appended:
  assumes rnd: "\<forall>n. 0 \<le> Math_random env n \<and> Math_random env n < 1"
    and k: "apiKey app \<noteq> []" and g: "fst (getCurrentQuiz app) = Some quiz"
    and s: "\<not> submitted quiz" and r: "resolve_source env quiz = Inr src"
    and l: "collect_loop env (snd (getCurrentQuiz app)) quiz src
              (clampInt (String_of env) cnt 1 50 5) (map q (questions quiz))
              (fset_of_list (map normText (map q (questions quiz))))
              (map tokenSet (map q (questions quiz))) 0 []
              \<lparr>collected = [], collectedNorm = {||}, collectedTokenSets = [], next_random = 0\<rparr>
            = (sent, Inr st)"
    and ne: "collected st \<noteq> []"
  shows "requests (addMoreQuestionsToCurrentQuiz env app cnt) = sent
    \<and> (\<exists>shuffled. mset shuffled = mset (collected st)
          \<and> quizzes (after (addMoreQuestionsToCurrentQuiz env app cnt))
              = update_first (\<lambda>x. quiz_id x = quiz_id quiz)
                  (\<lambda>z. z\<lparr>questions := questions z @ shuffled, updated_at := nowISO env\<rparr>)
                  (quizzes app)
          \<and> map_option questions
                (fst (getCurrentQuiz (after (addMoreQuestionsToCurrentQuiz env app cnt))))
              = Some (questions quiz @ shuffled))
    \<and> (case write_vault env
               ((after (addMoreQuestionsToCurrentQuiz env app cnt))\<lparr>stored := stored app\<rparr>) of
          Some e' \<Rightarrow>
            failure (addMoreQuestionsToCurrentQuiz env app cnt) = Some e'
            \<and> notice (addMoreQuestionsToCurrentQuiz env app cnt) = None
            \<and> stored (after (addMoreQuestionsToCurrentQuiz env app cnt)) = stored app
        | None \<Rightarrow>
            stored (after (addMoreQuestionsToCurrentQuiz env app cnt))
              = quizzes (after (addMoreQuestionsToCurrentQuiz env app cnt))
            \<and> (case view_render env (after (addMoreQuestionsToCurrentQuiz env app cnt)) of
                  Some e' \<Rightarrow>
                    failure (addMoreQuestionsToCurrentQuiz env app cnt) = Some e'
                    \<and> notice (addMoreQuestionsToCurrentQuiz env app cnt) = None
                | None \<Rightarrow>
                    (case Notice env (added_notice (String_of env) (length (collected st))) of
                       Some e' \<Rightarrow>
                         failure (addMoreQuestionsToCurrentQuiz env app cnt) = Some e'
                         \<and> notice (addMoreQuestionsToCurrentQuiz env app cnt) = None
                     | None \<Rightarrow>
                         failure (addMoreQuestionsToCurrentQuiz env app cnt) = None
                         \<and> notice (addMoreQuestionsToCurrentQuiz env app cnt)
                             = Some (added_notice (String_of env) (length (collected st))))))"
proof -
  let ?run = "addMoreQuestionsToCurrentQuiz env app cnt"
  let ?app1 = "snd (getCurrentQuiz app)"
  let ?sh = "fst (shuffleInPlace (Math_random env) (next_random st) (collected st))"
  let ?g = "\<lambda>z. z\<lparr>questions := questions z @ ?sh, updated_at := nowISO env\<rparr>"
  let ?U = "update_first (\<lambda>x. quiz_id x = quiz_id quiz) ?g (quizzes app)"
  let ?app2 = "?app1\<lparr>quizzes := ?U\<rparr>"
  let ?app3 = "?app2\<lparr>stored := ?U\<rparr>"
  let ?msg = "added_notice (String_of env) (length (collected st))"
  have keep: "quizzes ?app1 = quizzes app" "stored ?app1 = stored app"
    using getCurrentQuiz_keeps_quizzes [of app] by simp_all
  have ms: "mset ?sh = mset (collected st)" using rnd by (rule shuffleInPlace_mset)
  note found = getCurrentQuiz_found [OF g]
  have cur: "fst (getCurrentQuiz a) = Some (?g quiz)"
    if "quizzes a = ?U" and "currentQuizId a = currentQuizId ?app1" for a
    using getCurrentQuiz_updated [of a "quiz_id quiz" ?g "quizzes app" quiz] that found
    by simp
  have run: "?run =
     (case write_vault env ?app2 of
        Some e \<Rightarrow> \<lparr>after = ?app2, requests = sent, notice = None, failure = Some e\<rparr>
      | None \<Rightarrow>
          (case view_render env ?app3 of
             Some e \<Rightarrow> \<lparr>after = ?app3, requests = sent, notice = None, failure = Some e\<rparr>
           | None \<Rightarrow>
               (case Notice env ?msg of
                  Some e \<Rightarrow> \<lparr>after = ?app3, requests = sent, notice = None, failure = Some e\<rparr>
                | None \<Rightarrow> \<lparr>after = ?app3, requests = sent, notice = Some ?msg,
                            failure = None\<rparr>)))"
    using addMore_passes [OF k g s r l] ne by (simp add: Let_def split: option.split)
  have after: "after ?run = ?app2 \<or> after ?run = ?app3"
    and rq: "requests ?run = sent"
    unfolding run by (auto split: option.splits)
  from after have q: "quizzes (after ?run) = ?U"
    and c: "currentQuizId (after ?run) = currentQuizId ?app1"
    and a2: "(after ?run)\<lparr>stored := stored app\<rparr> = ?app2"
    using keep by auto
  have ex: "\<exists>shuffled. mset shuffled = mset (collected st)
          \<and> quizzes (after ?run)
              = update_first (\<lambda>x. quiz_id x = quiz_id quiz)
                  (\<lambda>z. z\<lparr>questions := questions z @ shuffled, updated_at := nowISO env\<rparr>)
                  (quizzes app)
          \<and> map_option questions (fst (getCurrentQuiz (after ?run)))
              = Some (questions quiz @ shuffled)"
  proof (rule exI [of _ ?sh], intro conjI)
    show "mset ?sh = mset (collected st)" by (rule ms)
    show "quizzes (after ?run) = ?U" by (rule q)
    show "map_option questions (fst (getCurrentQuiz (after ?run))) = Some (questions quiz @ ?sh)"
      using cur [OF q c] by simp
  qed
  have eff: "case write_vault env ?app2 of
          Some e' \<Rightarrow> failure ?run = Some e' \<and> notice ?run = None
            \<and> stored (after ?run) = stored app
        | None \<Rightarrow>
            stored (after ?run) = quizzes (after ?run)
            \<and> (case view_render env (after ?run) of
                  Some e' \<Rightarrow> failure ?run = Some e' \<and> notice ?run = None
                | None \<Rightarrow>
                    (case Notice env ?msg of
                       Some e' \<Rightarrow> failure ?run = Some e' \<and> notice ?run = None
                     | None \<Rightarrow> failure ?run = None \<and> notice ?run = Some ?msg))"
  proof (cases "write_vault env ?app2")
    case (Some e')
    then have "?run = \<lparr>after = ?app2, requests = sent, notice = None, failure = Some e'\<rparr>"
      unfolding run by simp
    then show ?thesis using Some keep by simp
  next
    case None
    then have r3: "?run =
          (case view_render env ?app3 of
             Some e \<Rightarrow> \<lparr>after = ?app3, requests = sent, notice = None, failure = Some e\<rparr>
           | None \<Rightarrow>
               (case Notice env ?msg of
                  Some e \<Rightarrow> \<lparr>after = ?app3, requests = sent, notice = None, failure = Some e\<rparr>
                | None \<Rightarrow> \<lparr>after = ?app3, requests = sent, notice = Some ?msg,
                            failure = None\<rparr>))"
      unfolding run by simp
    then have a3: "after ?run = ?app3" by (auto split: option.splits)
    show ?thesis
      unfolding None option.case a3
      using r3 by (auto split: option.splits)
  qed
  from rq ex eff show ?thesis unfolding a2 by (intro conjI)
qed
lemma planet_answer_parsed: "safeParseJson json_parse planet_answer = Inr planet_json"
proof -
  have t: "trim planet_answer = planet_answer"
    by (simp add: planet_answer_def asc_def trim_def is_space_def)
  have ne: "trim planet_answer \<noteq> []" by (simp add: t) (simp add: planet_answer_def asc_def)
  have r: "repairJsonCommon planet_answer = planet_answer"
    by (simp add: planet_answer_def repair_eval)
  have p: "json_parse planet_answer = Inr planet_json"
    by (simp add: planet_answer_def planet_json_def asc_def json_eval)
  show ?thesis
    by (simp add: safeParseJson_unfold [OF ne] t Let_def r p)
qed

lemma planet_json_normalized:
  assumes "uid env n 0 = asc ''qz_new''"
  shows "normalize_all env n 0 4
           (case field planet_json ''questions'' of Some (JArr xs) \<Rightarrow> xs | _ \<Rightarrow> [])
         = Inr [planet_question]"
  using assms
  by (simp add: planet_json_def planet_question_def normalizeQuestion_def
      matchQuestionType_first_match guard_defs registry_defs asc_def
      MULTIPLE_CHOICE_TOGGLE_KEY_def truthy_def js_String_def trim_def is_space_def Let_def)

lemma planet_question_randomized:
  "randomizeQuestionChoices example_rnd 0 planet_question = (planet_question_shuffled, 3)"
  by (simp add: randomizeQuestionChoices_def planet_question_def planet_question_shuffled_def
      shuffleInPlace_def shuffle_from.simps example_rnd_def Let_def floor_rat_numeral asc_def)

lemma planet_is_new:
  "\<not> isNearDuplicate (asc ''Largest planet?'') {|normText (asc ''Capital of France?'')|}
       [tokenSet (asc ''Capital of France?'')]"
proof -
  have n: "normText (asc ''Largest planet?'') = asc ''largest planet''"
    by (simp add: norm_eval)
  have m: "normText (asc ''Capital of France?'') = asc ''capital of france''"
    by (simp add: norm_eval)
  have t: "tokenSet (asc ''Capital of France?'') = {|asc ''capital'', asc ''france''|}"
    by (simp add: tokenSet_def norm_eval)
  have l: "long_words (asc ''largest planet'') = {|asc ''largest'', asc ''planet''|}"
    by (simp add: long_words_def asc_def)
  have j: "jaccard_similarity {|asc ''largest'', asc ''planet''|} {|asc ''capital'', asc ''france''|} = 0"
    by (simp add: jaccard_similarity_def asc_def fcard_finsert_if fcard_fempty)
  show ?thesis
    by (simp add: isNearDuplicate_iff n m t l j) (simp add: asc_def)
qed

lemma planet_norm:
  "normText (asc ''Largest planet?'') = asc ''largest planet''"
  "tokenSet (asc ''Largest planet?'') = {|asc ''largest'', asc ''planet''|}"
  by (simp_all add: tokenSet_def norm_eval)

lemma planet_is_repeated:
  "isNearDuplicate (asc ''Largest planet?'') {|asc ''largest planet''|} ets"
  by (simp add: isNearDuplicate_iff planet_norm)

lemma accept_first_planet:
  assumes "Math_random env = example_rnd"
  shows "accept_loop env 2 {|normText (asc ''Capital of France?'')|}
           [tokenSet (asc ''Capital of France?'')] [planet_question]
           \<lparr>collected = [], collectedNorm = {||}, collectedTokenSets = [], next_random = 0\<rparr>
         = planet_collected"
proof -
  have q: "q planet_question = asc ''Largest planet?''" by (simp add: planet_question_def)
  have new: "\<not> isNearDuplicate (asc ''Largest planet?'') {||} []"
    by (simp add: isNearDuplicate_iff planet_norm) (simp add: asc_def)
  show ?thesis
    by (simp add: q planet_is_new new assms planet_question_randomized planet_norm
        planet_collected_def)
qed

lemma accept_repeated_planet:
  "accept_loop env 2 {|normText (asc ''Capital of France?'')|}
     [tokenSet (asc ''Capital of France?'')] [planet_question] planet_collected
   = planet_collected"
proof -
  have q: "q planet_question = asc ''Largest planet?''" by (simp add: planet_question_def)
  have c: "collectedNorm planet_collected = {|asc ''largest planet''|}"
    "length (collected planet_collected) = 1"
    by (simp_all add: planet_collected_def)
  show ?thesis
    by (simp add: q c planet_is_new planet_is_repeated)
qed

lemma example_quiz_current:
  "getCurrentQuiz example_app
     = (Some (quiz_of [paris_question]), example_app\<lparr>currentQuizId := Some (asc ''qz_0'')\<rparr>)"
  by (simp add: getCurrentQuiz_def example_app_def quiz_of_def Let_def) (simp add: asc_def)

lemma example_run_allowed:
  "apiKey example_app \<noteq> []"
  "fst (getCurrentQuiz example_app) = Some (quiz_of [paris_question])"
  "\<not> submitted (quiz_of [paris_question])"
  "resolve_source env (quiz_of [paris_question]) = Inr (asc ''text'')"
proof -
  show "apiKey example_app \<noteq> []" by (simp add: example_app_def asc_def)
  show "fst (getCurrentQuiz example_app) = Some (quiz_of [paris_question])"
    by (simp add: example_quiz_current)
  show "\<not> submitted (quiz_of [paris_question])" by (simp add: quiz_of_def)
  show "resolve_source env (quiz_of [paris_question]) = Inr (asc ''text'')"
    by (simp add: resolve_source_def quiz_of_def asc_def trim_def is_space_def)
qed


lemma example_responses:
  "extractOutputText planet_response = planet_answer"
  "extractOutputText garbled_response = asc ''not json at all''"
proof -
  have t: "trim planet_answer = planet_answer"
    by (simp add: planet_answer_def asc_def trim_def is_space_def)
  have ne: "planet_answer \<noteq> []" by (simp add: planet_answer_def asc_def)
  show "extractOutputText planet_response = planet_answer"
    using t ne
    by (simp add: extractOutputText_def planet_response_def nonblank_string_def string_of_def)
  show "extractOutputText garbled_response = asc ''not json at all''"
    by (simp add: extractOutputText_def garbled_response_def nonblank_string_def string_of_def
        asc_def trim_def is_space_def)
qed

lemma planet_questions: "questions_of planet_json = (case field planet_json ''questions'' of
    Some (JArr xs) \<Rightarrow> xs | _ \<Rightarrow> [])"
  by (simp add: questions_of_def)

lemma example_desired: "clampInt example_String (JNum 2) 1 50 5 = 2"
  using clampInt_safe_integer [OF example_String_renders, of 2 1 50 5]
  by (simp add: MAX_SAFE_INTEGER_def)

lemma example_quiz_questions:
  "map q (questions (quiz_of [paris_question])) = [asc ''Capital of France?'']"
  "choicesCount (quiz_of [paris_question]) = 4"
  by (simp_all add: quiz_of_def paris_question_def)

lemma example_attempt_request:
  assumes "String_of env = example_String"
  shows "attempt_request env example_app (quiz_of [paris_question]) (asc ''text'') 2 st
       = example_request (min 12 (2 - int (length (collected st))))"
  using assms
  by (simp add: attempt_request_def example_request_def example_quiz_questions)
     (simp add: example_app_def)

lemma first_attempt_completed:
  assumes "JSON_parse env = json_parse" and "String_of env = example_String"
    and "uid env 1 0 = asc ''qz_new''" and "Math_random env = example_rnd"
    and "requestUrl env 1 (example_request 2) = Inr planet_response"
  shows "attempts_completed env example_app (quiz_of [paris_question]) (asc ''text'') 2 1
           planet_collected [example_request 2]"
proof -
  let ?st = "\<lparr>collected = [], collectedNorm = {||}, collectedTokenSets = [], next_random = 0\<rparr>"
  have rq: "attempt_request env example_app (quiz_of [paris_question]) (asc ''text'') 2 ?st
      = example_request 2"
    by (simp add: example_attempt_request [OF assms(2)])
  have "attempts_completed env example_app (quiz_of [paris_question]) (asc ''text'') 2 (0 + 1)
      (accept_loop env 2
         (fset_of_list (map normText (map q (questions (quiz_of [paris_question])))))
         (map tokenSet (map q (questions (quiz_of [paris_question])))) [planet_question] ?st)
      ([] @ [attempt_request env example_app (quiz_of [paris_question]) (asc ''text'') 2 ?st])"
  proof (rule attempts_completed.one_more [OF attempts_completed.no_attempt])
    show "(0::nat) < 3" by simp
    show "int (length (collected ?st)) < 2" by simp
    show "requestUrl env (0 + 1)
        (attempt_request env example_app (quiz_of [paris_question]) (asc ''text'') 2 ?st)
        = Inr planet_response"
      using assms(5) by (simp add: rq)
    show "safeParseJson (JSON_parse env) (extractOutputText planet_response) = Inr planet_json"
      by (simp add: assms(1) example_responses planet_answer_parsed)
    show "normalize_all env (0 + 1) 0 (choicesCount (quiz_of [paris_question]))
        (questions_of planet_json) = Inr [planet_question]"
      using planet_json_normalized [of env 1] assms(3)
      by (simp add: planet_questions example_quiz_questions)
  qed
  then show ?thesis
    using accept_first_planet [OF assms(4)]
    by (simp add: rq example_quiz_questions del: accept_loop.simps)
qed

lemma repeated_attempt_completed:
  assumes "JSON_parse env = json_parse" and "String_of env = example_String"
    and "uid env (k + 1) 0 = asc ''qz_new''"
    and "requestUrl env (k + 1) (example_request 1) = Inr planet_response"
    and "attempts_completed env example_app (quiz_of [paris_question]) (asc ''text'') 2 k
           planet_collected reqs"
    and "k < 3"
  shows "attempts_completed env example_app (quiz_of [paris_question]) (asc ''text'') 2 (k + 1)
           planet_collected (reqs @ [example_request 1])"
proof -
  have l: "length (collected planet_collected) = 1" by (simp add: planet_collected_def)
  have rq: "attempt_request env example_app (quiz_of [paris_question]) (asc ''text'') 2
      planet_collected = example_request 1"
    by (simp add: example_attempt_request [OF assms(2)] l)
  have "attempts_completed env example_app (quiz_of [paris_question]) (asc ''text'') 2 (k + 1)
      (accept_loop env 2
         (fset_of_list (map normText (map q (questions (quiz_of [paris_question])))))
         (map tokenSet (map q (questions (quiz_of [paris_question])))) [planet_question]
         planet_collected)
      (reqs @ [attempt_request env example_app (quiz_of [paris_question]) (asc ''text'') 2
                 planet_collected])"
  proof (rule attempts_completed.one_more [OF assms(5) assms(6)])
    show "int (length (collected planet_collected)) < 2" by (simp add: l)
    show "requestUrl env (k + 1)
        (attempt_request env example_app (quiz_of [paris_question]) (asc ''text'') 2
           planet_collected) = Inr planet_response"
      using assms(4) by (simp add: rq)
    show "safeParseJson (JSON_parse env) (extractOutputText planet_response) = Inr planet_json"
      by (simp add: assms(1) example_responses planet_answer_parsed)
    show "normalize_all env (k + 1) 0 (choicesCount (quiz_of [paris_question]))
        (questions_of planet_json) = Inr [planet_question]"
      using planet_json_normalized [of env "k + 1"] assms(3)
      by (simp add: planet_questions example_quiz_questions)
  qed
  then show ?thesis
    using accept_repeated_planet [of env]
    by (simp add: rq example_quiz_questions del: accept_loop.simps)
qed

lemma failing_env_fields:
  "JSON_parse failing_env = json_parse" "String_of failing_env = example_String"
  "uid failing_env n j = asc ''qz_new''" "Math_random failing_env = example_rnd"
  "requestUrl failing_env 1 rq = Inr planet_response"
  "requestUrl failing_env 2 rq = Inr garbled_response"
  "requestUrl failing_env (Suc 0) rq = Inr planet_response"
  "requestUrl failing_env (Suc (Suc 0)) rq = Inr garbled_response"
  "write_vault failing_env v = None" "view_render failing_env v = None"
  "Notice failing_env m = None"
  by (simp_all add: failing_env_def)

lemma repeating_env_fields:
  "JSON_parse repeating_env = json_parse" "String_of repeating_env = example_String"
  "uid repeating_env n j = asc ''qz_new''" "Math_random repeating_env = example_rnd"
  "requestUrl repeating_env n rq = Inr planet_response"
  "write_vault repeating_env v = None" "view_render repeating_env v = None"
  "Notice repeating_env m = None"
  by (simp_all add: repeating_env_def failing_env_def)

lemma failing_first_attempt:
  "attempts_completed failing_env example_app (quiz_of [paris_question]) (asc ''text'') 2 1
     planet_collected [example_request 2]"
  by (rule first_attempt_completed) (simp_all add: failing_env_fields)

lemma failing_second_attempt:
  "attempt_raises failing_env example_app (quiz_of [paris_question]) (asc ''text'') 2 1
     planet_collected NotJson"
proof -
  have "requestUrl failing_env (1 + 1)
      (attempt_request failing_env example_app (quiz_of [paris_question]) (asc ''text'') 2
         planet_collected) = Inr garbled_response"
    by (simp add: failing_env_fields)
  then show ?thesis
    by (simp add: attempt_raises_def failing_env_fields example_responses not_json_classified)
qed

lemma repeating_attempts:
  "attempts_completed repeating_env example_app (quiz_of [paris_question]) (asc ''text'') 2 3
     planet_collected [example_request 2, example_request 1, example_request 1]"
proof -
  have 1: "attempts_completed repeating_env example_app (quiz_of [paris_question])
      (asc ''text'') 2 1 planet_collected [example_request 2]"
    by (rule first_attempt_completed) (simp_all add: repeating_env_fields)
  have 2: "attempts_completed repeating_env example_app (quiz_of [paris_question])
      (asc ''text'') 2 (1 + 1) planet_collected ([example_request 2] @ [example_request 1])"
    by (rule repeated_attempt_completed [OF _ _ _ _ 1]) (simp_all add: repeating_env_fields)
  have "attempts_completed repeating_env example_app (quiz_of [paris_question])
      (asc ''text'') 2 (1 + 1 + 1) planet_collected
      (([example_request 2] @ [example_request 1]) @ [example_request 1])"
    by (rule repeated_attempt_completed [OF _ _ _ _ 2]) (simp_all add: repeating_env_fields)
  then show ?thesis by (simp add: numeral_3_eq_3)
qed

text \<open>
  C2, as stated, at a quiz of one question asked for two more: the first response brings one
  new question, which is accepted, so that the second request asks for one; the second
  response is no JSON. The call fails with the error of the parser, not with
  \<open>NoNewQuestions\<close>, and the accepted question is not appended: the quizzes are as before.
\<close>

theorem accepted_question_lost_counterexample:
  "apiKey example_app \<noteq> []
   \<and> fst (getCurrentQuiz example_app) = Some (quiz_of [paris_question])
   \<and> \<not> submitted (quiz_of [paris_question])
   \<and> resolve_source failing_env (quiz_of [paris_question]) = Inr (asc ''text'')
   \<and> attempts_completed failing_env example_app (quiz_of [paris_question]) (asc ''text'') 2 1
        planet_collected [example_request 2]
   \<and> collected planet_collected = [planet_question_shuffled]
   \<and> requests (addMoreQuestionsToCurrentQuiz failing_env example_app (JNum 2))
       = [example_request 2, example_request 1]
   \<and> failure (addMoreQuestionsToCurrentQuiz failing_env example_app (JNum 2)) = Some NotJson
   \<and> quizzes (after (addMoreQuestionsToCurrentQuiz failing_env example_app (JNum 2)))
       = quizzes example_app
   \<and> stored (after (addMoreQuestionsToCurrentQuiz failing_env example_app (JNum 2)))
       = stored example_app"
proof -
  let ?quiz = "quiz_of [paris_question]"
  let ?app1 = "snd (getCurrentQuiz example_app)"
  have d: "clampInt (String_of failing_env) (JNum 2) 1 50 5 = 2"
    by (simp add: failing_env_fields example_desired)
  have same: "apiKey ?app1 = apiKey example_app" "settings ?app1 = settings example_app"
    using getCurrentQuiz_keeps_quizzes [of example_app] by simp_all
  have l: "length (collected planet_collected) = 1" by (simp add: planet_collected_def)
  have rq: "attempt_request failing_env example_app ?quiz (asc ''text'') 2 planet_collected
      = example_request 1"
    by (simp add: example_attempt_request failing_env_fields l)
  have "collect_loop failing_env ?app1 ?quiz (asc ''text'') 2 (map q (questions ?quiz))
           (fset_of_list (map normText (map q (questions ?quiz))))
           (map tokenSet (map q (questions ?quiz))) 0 []
           \<lparr>collected = [], collectedNorm = {||}, collectedTokenSets = [], next_random = 0\<rparr>
      = collect_loop failing_env ?app1 ?quiz (asc ''text'') 2 (map q (questions ?quiz))
           (fset_of_list (map normText (map q (questions ?quiz))))
           (map tokenSet (map q (questions ?quiz))) 1 [example_request 2] planet_collected"
    using failing_first_attempt same by (rule collect_loop_continues)
  also have "\<dots> = ([example_request 2] @ [example_request 1], Inl NotJson)"
    using collect_loop_raises [OF _ _ failing_second_attempt same, of
        "fset_of_list (map normText (map q (questions ?quiz)))"
        "map tokenSet (map q (questions ?quiz))" "[example_request 2]"]
    by (simp add: l rq)
  finally have loop: "collect_loop failing_env ?app1 ?quiz (asc ''text'')
           (clampInt (String_of failing_env) (JNum 2) 1 50 5) (map q (questions ?quiz))
           (fset_of_list (map normText (map q (questions ?quiz))))
           (map tokenSet (map q (questions ?quiz))) 0 []
           \<lparr>collected = [], collectedNorm = {||}, collectedTokenSets = [], next_random = 0\<rparr>
      = ([example_request 2, example_request 1], Inl NotJson)"
    by (simp add: d)
  have "addMoreQuestionsToCurrentQuiz failing_env example_app (JNum 2)
      = \<lparr>after = ?app1, requests = [example_request 2, example_request 1], notice = None,
         failure = Some NotJson\<rparr>"
    using addMore_passes [OF example_run_allowed loop] by simp
  then show ?thesis
    using getCurrentQuiz_keeps_quizzes [of example_app] failing_first_attempt
    by (simp add: example_run_allowed planet_collected_def)
qed

lemma paris_answer_parsed: "safeParseJson json_parse paris_answer = Inr paris_json"
proof -
  have t: "trim paris_answer = paris_answer"
    by (simp add: paris_answer_def asc_def trim_def is_space_def)
  have ne: "trim paris_answer \<noteq> []" by (simp add: t) (simp add: paris_answer_def asc_def)
  have r: "repairJsonCommon paris_answer = paris_answer"
    by (simp add: paris_answer_def repair_eval)
  have p: "json_parse paris_answer = Inr paris_json"
    by (simp add: paris_answer_def paris_json_def asc_def json_eval)
  show ?thesis
    by (simp add: safeParseJson_unfold [OF ne] t Let_def r p)
qed

lemma paris_response_text: "extractOutputText paris_response = paris_answer"
proof -
  have t: "trim paris_answer = paris_answer"
    by (simp add: paris_answer_def asc_def trim_def is_space_def)
  have ne: "paris_answer \<noteq> []" by (simp add: paris_answer_def asc_def)
  show ?thesis
    using t ne
    by (simp add: extractOutputText_def paris_response_def nonblank_string_def string_of_def)
qed

lemma paris_json_normalized:
  assumes "uid env n 0 = asc ''qz_new''"
  shows "normalize_all env n 0 4 (questions_of paris_json) = Inr [paris_candidate]"
  using assms
  by (simp add: questions_of_def paris_json_def paris_candidate_def paris_question_def
      normalizeQuestion_def
      matchQuestionType_first_match guard_defs registry_defs asc_def
      MULTIPLE_CHOICE_TOGGLE_KEY_def truthy_def js_String_def trim_def is_space_def Let_def)

lemma accept_duplicate:
  "accept_loop env 10 {|normText (asc ''Capital of France?'')|}
     [tokenSet (asc ''Capital of France?'')] [paris_candidate]
     \<lparr>collected = [], collectedNorm = {||}, collectedTokenSets = [], next_random = 0\<rparr>
   = \<lparr>collected = [], collectedNorm = {||}, collectedTokenSets = [], next_random = 0\<rparr>"
proof -
  have q: "q paris_candidate = asc ''Capital of France?''"
    by (simp add: paris_candidate_def paris_question_def)
  have "isNearDuplicate (asc ''Capital of France?'') {|normText (asc ''Capital of France?'')|}
      [tokenSet (asc ''Capital of France?'')]"
    by (simp add: isNearDuplicate_iff)
  then show ?thesis by (simp add: q)
qed

lemma duplicating_env_fields:
  "JSON_parse duplicating_env = json_parse" "String_of duplicating_env = example_String"
  "uid duplicating_env n j = asc ''qz_new''" "Math_random duplicating_env = example_rnd"
  "requestUrl duplicating_env n rq = Inr paris_response"
  by (simp_all add: duplicating_env_def failing_env_def)

lemma example_desired_ten: "clampInt example_String (JNum 10) 1 50 5 = 10"
  using clampInt_safe_integer [OF example_String_renders, of 10 1 50 5]
  by (simp add: MAX_SAFE_INTEGER_def)

lemma duplicate_attempt_completed:
  assumes "attempts_completed duplicating_env example_app (quiz_of [paris_question])
             (asc ''text'') 10 k
             \<lparr>collected = [], collectedNorm = {||}, collectedTokenSets = [], next_random = 0\<rparr>
             reqs"
    and "k < 3"
  shows "attempts_completed duplicating_env example_app (quiz_of [paris_question])
           (asc ''text'') 10 (k + 1)
           \<lparr>collected = [], collectedNorm = {||}, collectedTokenSets = [], next_random = 0\<rparr>
           (reqs @ [example_request 10])"
proof -
  let ?st = "\<lparr>collected = [], collectedNorm = {||}, collectedTokenSets = [], next_random = 0\<rparr>"
  have rq: "attempt_request duplicating_env example_app (quiz_of [paris_question])
      (asc ''text'') 10 ?st = example_request 10"
    using example_attempt_request [of duplicating_env ?st]
    by (simp add: attempt_request_def example_request_def example_quiz_questions
        duplicating_env_fields)
       (simp add: example_app_def)
  have "attempts_completed duplicating_env example_app (quiz_of [paris_question])
      (asc ''text'') 10 (k + 1)
      (accept_loop duplicating_env 10
         (fset_of_list (map normText (map q (questions (quiz_of [paris_question])))))
         (map tokenSet (map q (questions (quiz_of [paris_question])))) [paris_candidate] ?st)
      (reqs @ [attempt_request duplicating_env example_app (quiz_of [paris_question])
                 (asc ''text'') 10 ?st])"
  proof (rule attempts_completed.one_more [OF assms(1) assms(2)])
    show "int (length (collected ?st)) < 10" by simp
    show "requestUrl duplicating_env (k + 1)
        (attempt_request duplicating_env example_app (quiz_of [paris_question]) (asc ''text'')
           10 ?st) = Inr paris_response"
      by (simp add: duplicating_env_fields)
    show "safeParseJson (JSON_parse duplicating_env) (extractOutputText paris_response)
        = Inr paris_json"
      by (simp add: duplicating_env_fields paris_response_text paris_answer_parsed)
    show "normalize_all duplicating_env (k + 1) 0 (choicesCount (quiz_of [paris_question]))
        (questions_of paris_json) = Inr [paris_candidate]"
      using paris_json_normalized [of duplicating_env "k + 1"]
      by (simp add: example_quiz_questions duplicating_env_fields)
  qed
  then show ?thesis
    using accept_duplicate [of duplicating_env]
    by (simp add: rq example_quiz_questions del: accept_loop.simps)
qed

lemma duplicating_attempts:
  "attempts_completed duplicating_env example_app (quiz_of [paris_question]) (asc ''text'') 10 3
     \<lparr>collected = [], collectedNorm = {||}, collectedTokenSets = [], next_random = 0\<rparr>
     [example_request 10, example_request 10, example_request 10]"
proof -
  let ?st = "\<lparr>collected = [], collectedNorm = {||}, collectedTokenSets = [], next_random = 0\<rparr>"
  have 1: "attempts_completed duplicating_env example_app (quiz_of [paris_question])
      (asc ''text'') 10 (0 + 1) ?st ([] @ [example_request 10])"
    by (rule duplicate_attempt_completed [OF attempts_completed.no_attempt]) simp
  have 2: "attempts_completed duplicating_env example_app (quiz_of [paris_question])
      (asc ''text'') 10 (0 + 1 + 1) ?st (([] @ [example_request 10]) @ [example_request 10])"
    by (rule duplicate_attempt_completed [OF 1]) simp
  have "attempts_completed duplicating_env example_app (quiz_of [paris_question])
      (asc ''text'') 10 (0 + 1 + 1 + 1) ?st
      ((([] @ [example_request 10]) @ [example_request 10]) @ [example_request 10])"
    by (rule duplicate_attempt_completed [OF 2]) simp
  then show ?thesis by (simp add: numeral_3_eq_3)
qed

text \<open>
  C2, amended. Take an invocation of \<open>addMoreQuestionsToCurrentQuiz\<close> that passes the
  initial checks (an API key, a current quiz that is not submitted, a source text), and let
  \<open>k\<close> attempts have been completed, none of which raised. Then \<open>k\<close> is at most 3, and
  each attempt has sent one request, built for a batch of min(12, remaining) questions,
  between 1 and 12. If a further attempt is due and its request, the recovery parser or the
  normalizer raises, the call fails with that error, whatever has been accepted before, and
  the quizzes and what is persisted are unchanged. If no further attempt is due (3 have been
  made or the desired count is reached): with nothing accepted the call fails with the
  \<open>NoNewQuestions\<close> error and nothing changes; otherwise the accepted questions, at most
  the desired count and possibly fewer, are appended in a shuffled order to the questions of
  the current quiz, and the vault is saved: if the save raises, the call fails with the
  questions appended but not persisted; if not, they are persisted, and the call succeeds with
  the notice of the number added unless the rendering of the view or the notice raises.
  Every call is of one of these kinds. The random numbers are in [0, 1).
\<close>

theorem addMoreQuestions_partial_success:
  assumes "\<forall>n. 0 \<le> Math_random env n \<and> Math_random env n < 1"
    and "apiKey app \<noteq> []" and "fst (getCurrentQuiz app) = Some quiz"
    and "\<not> submitted quiz" and "resolve_source env quiz = Inr src"
    and "attempts_completed env app quiz src (clampInt (String_of env) cnt 1 50 5) k st reqs"
  shows "k \<le> 3 \<and> length reqs = k
    \<and> int (length (collected st)) \<le> clampInt (String_of env) cnt 1 50 5
    \<and> (\<forall>r \<in> set reqs. \<exists>b. 1 \<le> b \<and> b \<le> 12
          \<and> r = build_request (String_of env) (apiKey app) (settings app) quiz src
                  (map q (questions quiz)) b)
    \<and> (k < 3 \<and> int (length (collected st)) < clampInt (String_of env) cnt 1 50 5
        \<and> attempt_raises env app quiz src (clampInt (String_of env) cnt 1 50 5) k st e \<longrightarrow>
          requests (addMoreQuestionsToCurrentQuiz env app cnt)
            = reqs @ [attempt_request env app quiz src (clampInt (String_of env) cnt 1 50 5) st]
          \<and> failure (addMoreQuestionsToCurrentQuiz env app cnt) = Some e
          \<and> notice (addMoreQuestionsToCurrentQuiz env app cnt) = None
          \<and> quizzes (after (addMoreQuestionsToCurrentQuiz env app cnt)) = quizzes app
          \<and> stored (after (addMoreQuestionsToCurrentQuiz env app cnt)) = stored app)
    \<and> ((k = 3 \<or> clampInt (String_of env) cnt 1 50 5 \<le> int (length (collected st)))
        \<and> collected st = [] \<longrightarrow>
          requests (addMoreQuestionsToCurrentQuiz env app cnt) = reqs
          \<and> failure (addMoreQuestionsToCurrentQuiz env app cnt) = Some NoNewQuestions
          \<and> notice (addMoreQuestionsToCurrentQuiz env app cnt) = None
          \<and> quizzes (after (addMoreQuestionsToCurrentQuiz env app cnt)) = quizzes app
          \<and> stored (after (addMoreQuestionsToCurrentQuiz env app cnt)) = stored app)
    \<and> ((k = 3 \<or> clampInt (String_of env) cnt 1 50 5 \<le> int (length (collected st)))
        \<and> collected st \<noteq> [] \<longrightarrow>
          requests (addMoreQuestionsToCurrentQuiz env app cnt) = reqs
          \<and> (\<exists>shuffled. mset shuffled = mset (collected st)
                \<and> quizzes (after (addMoreQuestionsToCurrentQuiz env app cnt))
                    = update_first (\<lambda>x. quiz_id x = quiz_id quiz)
                        (\<lambda>z. z\<lparr>questions := questions z @ shuffled, updated_at := nowISO env\<rparr>)
                        (quizzes app)
                \<and> map_option questions
                      (fst (getCurrentQuiz (after (addMoreQuestionsToCurrentQuiz env app cnt))))
                    = Some (questions quiz @ shuffled))
          \<and> (case write_vault env
                     ((after (addMoreQuestionsToCurrentQuiz env app cnt))
                        \<lparr>stored := stored app\<rparr>) of
                Some e' \<Rightarrow>
                  failure (addMoreQuestionsToCurrentQuiz env app cnt) = Some e'
                  \<and> notice (addMoreQuestionsToCurrentQuiz env app cnt) = None
                  \<and> stored (after (addMoreQuestionsToCurrentQuiz env app cnt)) = stored app
              | None \<Rightarrow>
                  stored (after (addMoreQuestionsToCurrentQuiz env app cnt))
                    = quizzes (after (addMoreQuestionsToCurrentQuiz env app cnt))
                  \<and> (case view_render env (after (addMoreQuestionsToCurrentQuiz env app cnt)) of
                        Some e' \<Rightarrow>
                          failure (addMoreQuestionsToCurrentQuiz env app cnt) = Some e'
                          \<and> notice (addMoreQuestionsToCurrentQuiz env app cnt) = None
                      | None \<Rightarrow>
                          (case Notice env
                                  (added_notice (String_of env) (length (collected st))) of
                             Some e' \<Rightarrow>
                               failure (addMoreQuestionsToCurrentQuiz env app cnt) = Some e'
                               \<and> notice (addMoreQuestionsToCurrentQuiz env app cnt) = None
                           | None \<Rightarrow>
                               failure (addMoreQuestionsToCurrentQuiz env app cnt) = None
                               \<and> notice (addMoreQuestionsToCurrentQuiz env app cnt)
                                   = Some (added_notice (String_of env)
                                             (length (collected st)))))))
    \<and> (\<exists>k' st' reqs'.
          attempts_completed env app quiz src (clampInt (String_of env) cnt 1 50 5) k' st' reqs'
          \<and> (k' = 3 \<or> clampInt (String_of env) cnt 1 50 5 \<le> int (length (collected st'))
              \<or> (\<exists>e'. k' < 3
                    \<and> int (length (collected st')) < clampInt (String_of env) cnt 1 50 5
                    \<and> attempt_raises env app quiz src (clampInt (String_of env) cnt 1 50 5)
                         k' st' e')))"
  (is "?bounds \<and> ?len \<and> ?most \<and> ?batches \<and> ?raised \<and> ?none \<and> ?some \<and> ?all")
proof -
  let ?run = "addMoreQuestionsToCurrentQuiz env app cnt"
  let ?d = "clampInt (String_of env) cnt 1 50 5"
  let ?app1 = "snd (getCurrentQuiz app)"
  let ?en = "fset_of_list (map normText (map q (questions quiz)))"
  let ?et = "map tokenSet (map q (questions quiz))"
  let ?init = "\<lparr>collected = [], collectedNorm = {||}, collectedTokenSets = [], next_random = 0\<rparr>"
  have d: "0 \<le> ?d" using clampInt_1_50 [of "String_of env" cnt] by simp
  have keep: "quizzes ?app1 = quizzes app" "stored ?app1 = stored app"
    and same: "apiKey ?app1 = apiKey app" "settings ?app1 = settings app"
    using getCurrentQuiz_keeps_quizzes [of app] by simp_all
  note b = attempts_completed_bounds [OF assms(6) d]
  have b1: ?bounds and b2: ?len and b3: ?most and b4: ?batches
    using b by blast+
  note cont = collect_loop_continues [OF assms(6) same]
  have raised: ?raised
  proof
    assume a: "k < 3 \<and> int (length (collected st)) < ?d
        \<and> attempt_raises env app quiz src ?d k st e"
    then have "collect_loop env ?app1 quiz src ?d (map q (questions quiz)) ?en ?et k reqs st
        = (reqs @ [attempt_request env app quiz src ?d st], Inl e)"
      using collect_loop_raises [OF _ _ _ same, of k st ?d env quiz src e ?en ?et reqs]
      by simp
    with cont have "collect_loop env ?app1 quiz src ?d (map q (questions quiz)) ?en ?et 0 []
        ?init = (reqs @ [attempt_request env app quiz src ?d st], Inl e)"
      by simp
    from addMore_passes [OF assms(2,3,4,5) this]
    have "?run = \<lparr>after = ?app1, requests = reqs @ [attempt_request env app quiz src ?d st],
        notice = None, failure = Some e\<rparr>"
      by simp
    then show "requests ?run = reqs @ [attempt_request env app quiz src ?d st]
          \<and> failure ?run = Some e \<and> notice ?run = None
          \<and> quizzes (after ?run) = quizzes app \<and> stored (after ?run) = stored app"
      using keep by simp
  qed
  have ended: "collect_loop env ?app1 quiz src ?d (map q (questions quiz)) ?en ?et 0 [] ?init
        = (reqs, Inr st)"
    if "k = 3 \<or> ?d \<le> int (length (collected st))"
    using cont collect_loop_ends [OF that, of env ?app1 quiz src "map q (questions quiz)"
        ?en ?et reqs]
    by simp
  have none: ?none
  proof
    assume a: "(k = 3 \<or> ?d \<le> int (length (collected st))) \<and> collected st = []"
    then have e: "collected st = []" by (rule conjunct2)
    from a have "k = 3 \<or> ?d \<le> int (length (collected st))" by (rule conjunct1)
    from addMore_passes [OF assms(2,3,4,5) ended [OF this]] e
    have "?run = \<lparr>after = ?app1, requests = reqs, notice = None,
        failure = Some NoNewQuestions\<rparr>"
      by simp
    then show "requests ?run = reqs \<and> failure ?run = Some NoNewQuestions
          \<and> notice ?run = None
          \<and> quizzes (after ?run) = quizzes app \<and> stored (after ?run) = stored app"
      using keep by simp
  qed
  have some: ?some
  proof
    assume a: "(k = 3 \<or> ?d \<le> int (length (collected st))) \<and> collected st \<noteq> []"
    then have ne: "collected st \<noteq> []" by (rule conjunct2)
    from a have "k = 3 \<or> ?d \<le> int (length (collected st))" by (rule conjunct1)
    from addMore_appended [OF assms(1,2,3,4,5) ended [OF this] ne]
    show "requests ?run = reqs
          \<and> (\<exists>shuffled. mset shuffled = mset (collected st)
                \<and> quizzes (after ?run)
                    = update_first (\<lambda>x. quiz_id x = quiz_id quiz)
                        (\<lambda>z. z\<lparr>questions := questions z @ shuffled, updated_at := nowISO env\<rparr>)
                        (quizzes app)
                \<and> map_option questions (fst (getCurrentQuiz (after ?run)))
                    = Some (questions quiz @ shuffled))
          \<and> (case write_vault env ((after ?run)\<lparr>stored := stored app\<rparr>) of
                Some e' \<Rightarrow> failure ?run = Some e' \<and> notice ?run = None
                  \<and> stored (after ?run) = stored app
              | None \<Rightarrow>
                  stored (after ?run) = quizzes (after ?run)
                  \<and> (case view_render env (after ?run) of
                        Some e' \<Rightarrow> failure ?run = Some e' \<and> notice ?run = None
                      | None \<Rightarrow>
                          (case Notice env
                                  (added_notice (String_of env) (length (collected st))) of
                             Some e' \<Rightarrow> failure ?run = Some e' \<and> notice ?run = None
                           | None \<Rightarrow>
                               failure ?run = None
                               \<and> notice ?run
                                   = Some (added_notice (String_of env)
                                             (length (collected st))))))" .
  qed
  have all: ?all
    using attempts_exhaustive [OF attempts_completed.no_attempt, of env app quiz src ?d]
    by simp
  from b1 b2 b3 b4 raised none some all show ?thesis by (intro conjI)
qed

theorem addMoreQuestions_partial_success_witness:
  "(\<forall>n. 0 \<le> Math_random failing_env n \<and> Math_random failing_env n < 1)
   \<and> (\<forall>n. 0 \<le> Math_random repeating_env n \<and> Math_random repeating_env n < 1)
   \<and> apiKey example_app \<noteq> []
   \<and> fst (getCurrentQuiz example_app) = Some (quiz_of [paris_question])
   \<and> \<not> submitted (quiz_of [paris_question])
   \<and> resolve_source failing_env (quiz_of [paris_question]) = Inr (asc ''text'')
   \<and> resolve_source repeating_env (quiz_of [paris_question]) = Inr (asc ''text'')
   \<and> clampInt (String_of failing_env) (JNum 2) 1 50 5 = 2
   \<and> clampInt (String_of repeating_env) (JNum 2) 1 50 5 = 2
   \<and> attempts_completed failing_env example_app (quiz_of [paris_question]) (asc ''text'') 2 1
        planet_collected [example_request 2]
   \<and> attempt_raises failing_env example_app (quiz_of [paris_question]) (asc ''text'') 2 1
        planet_collected NotJson
   \<and> requests (addMoreQuestionsToCurrentQuiz failing_env example_app (JNum 2))
       = [example_request 2, example_request 1]
   \<and> failure (addMoreQuestionsToCurrentQuiz failing_env example_app (JNum 2)) = Some NotJson
   \<and> attempts_completed repeating_env example_app (quiz_of [paris_question]) (asc ''text'') 2 3
        planet_collected [example_request 2, example_request 1, example_request 1]
   \<and> requests (addMoreQuestionsToCurrentQuiz repeating_env example_app (JNum 2))
       = [example_request 2, example_request 1, example_request 1]
   \<and> failure (addMoreQuestionsToCurrentQuiz repeating_env example_app (JNum 2)) = None
   \<and> notice (addMoreQuestionsToCurrentQuiz repeating_env example_app (JNum 2))
       = Some (asc ''Added 1 question.'')
   \<and> stored (after (addMoreQuestionsToCurrentQuiz repeating_env example_app (JNum 2)))
       = quizzes (after (addMoreQuestionsToCurrentQuiz repeating_env example_app (JNum 2)))
   \<and> map_option questions
         (fst (getCurrentQuiz
            (after (addMoreQuestionsToCurrentQuiz repeating_env example_app (JNum 2)))))
       = Some [paris_question, planet_question_shuffled]
   \<and> (\<forall>n. 0 \<le> Math_random duplicating_env n \<and> Math_random duplicating_env n < 1)
   \<and> resolve_source duplicating_env (quiz_of [paris_question]) = Inr (asc ''text'')
   \<and> clampInt (String_of duplicating_env) (JNum 10) 1 50 5 = 10
   \<and> attempts_completed duplicating_env example_app (quiz_of [paris_question]) (asc ''text'')
        10 3
        \<lparr>collected = [], collectedNorm = {||}, collectedTokenSets = [], next_random = 0\<rparr>
        [example_request 10, example_request 10, example_request 10]
   \<and> requests (addMoreQuestionsToCurrentQuiz duplicating_env example_app (JNum 10))
       = [example_request 10, example_request 10, example_request 10]
   \<and> failure (addMoreQuestionsToCurrentQuiz duplicating_env example_app (JNum 10))
       = Some NoNewQuestions
   \<and> quizzes (after (addMoreQuestionsToCurrentQuiz duplicating_env example_app (JNum 10)))
       = quizzes example_app"
proof -
  let ?quiz = "quiz_of [paris_question]"
  let ?f = "addMoreQuestionsToCurrentQuiz failing_env example_app (JNum 2)"
  let ?r = "addMoreQuestionsToCurrentQuiz repeating_env example_app (JNum 2)"
  let ?d = "addMoreQuestionsToCurrentQuiz duplicating_env example_app (JNum 10)"
  let ?init = "\<lparr>collected = [], collectedNorm = {||}, collectedTokenSets = [], next_random = 0\<rparr>"
  have rnd_d: "\<forall>n. 0 \<le> Math_random duplicating_env n \<and> Math_random duplicating_env n < 1"
    using example_rnd_unit by (simp add: duplicating_env_fields)
  have d_d: "clampInt (String_of duplicating_env) (JNum 10) 1 50 5 = 10"
    by (simp add: duplicating_env_fields example_desired_ten)
  have done_d: "attempts_completed duplicating_env example_app ?quiz (asc ''text'')
      (clampInt (String_of duplicating_env) (JNum 10) 1 50 5) 3 ?init
      [example_request 10, example_request 10, example_request 10]"
    using duplicating_attempts by (simp add: d_d)
  have rnd_f: "\<forall>n. 0 \<le> Math_random failing_env n \<and> Math_random failing_env n < 1"
    using example_rnd_unit by (simp add: failing_env_fields)
  have rnd_r: "\<forall>n. 0 \<le> Math_random repeating_env n \<and> Math_random repeating_env n < 1"
    using example_rnd_unit by (simp add: repeating_env_fields)
  have d_f: "clampInt (String_of failing_env) (JNum 2) 1 50 5 = 2"
    by (simp add: failing_env_fields example_desired)
  have d_r: "clampInt (String_of repeating_env) (JNum 2) 1 50 5 = 2"
    by (simp add: repeating_env_fields example_desired)
  have l: "length (collected planet_collected) = 1"
    and c: "collected planet_collected = [planet_question_shuffled]"
    by (simp_all add: planet_collected_def)
  have qs: "questions ?quiz = [paris_question]" by (simp add: quiz_of_def)
  have rq: "attempt_request failing_env example_app ?quiz (asc ''text'') 2 planet_collected
      = example_request 1"
    by (simp add: example_attempt_request failing_env_fields l)
  have msg: "added_notice example_String (Suc 0) = asc ''Added 1 question.''"
    by (simp add: added_notice_def js_String_def example_String_def MAX_SAFE_INTEGER_def
        decimal_def digits.simps [of "Suc 0"] asc_def)
  have done_f: "attempts_completed failing_env example_app ?quiz (asc ''text'')
      (clampInt (String_of failing_env) (JNum 2) 1 50 5) 1 planet_collected [example_request 2]"
    using failing_first_attempt by (simp add: d_f)
  have done_r: "attempts_completed repeating_env example_app ?quiz (asc ''text'')
      (clampInt (String_of repeating_env) (JNum 2) 1 50 5) 3 planet_collected
      [example_request 2, example_request 1, example_request 1]"
    using repeating_attempts by (simp add: d_r)
  note tf = addMoreQuestions_partial_success
    [OF rnd_f example_run_allowed(1,2,3) example_run_allowed(4) [of failing_env] done_f,
     of NotJson]
  note tr = addMoreQuestions_partial_success
    [OF rnd_r example_run_allowed(1,2,3) example_run_allowed(4) [of repeating_env] done_r]
  note td = addMoreQuestions_partial_success
    [OF rnd_d example_run_allowed(1,2,3) example_run_allowed(4) [of duplicating_env] done_d]
  note none_accepted = td [THEN conjunct2, THEN conjunct2, THEN conjunct2, THEN conjunct2,
    THEN conjunct2, THEN conjunct1]
  from none_accepted
  have n: "requests ?d = [example_request 10, example_request 10, example_request 10]"
    "failure ?d = Some NoNewQuestions" "quizzes (after ?d) = quizzes example_app"
    by (simp_all add: d_d)
  note raised = tf [THEN conjunct2, THEN conjunct2, THEN conjunct2, THEN conjunct2,
    THEN conjunct1]
  note appended = tr [THEN conjunct2, THEN conjunct2, THEN conjunct2, THEN conjunct2,
    THEN conjunct2, THEN conjunct2, THEN conjunct1]
  from raised failing_second_attempt
  have f: "requests ?f = [example_request 2, example_request 1]" "failure ?f = Some NotJson"
    by (simp_all add: d_f l rq)
  from appended
  have r: "requests ?r = [example_request 2, example_request 1, example_request 1]"
    "failure ?r = None" "notice ?r = Some (asc ''Added 1 question.'')"
    "stored (after ?r) = quizzes (after ?r)"
    "map_option questions (fst (getCurrentQuiz (after ?r)))
       = Some [paris_question, planet_question_shuffled]"
    by (auto simp: d_r c qs repeating_env_fields msg)
  show ?thesis
    using rnd_f rnd_r example_run_allowed(1,2,3) example_run_allowed(4) [of failing_env]
      example_run_allowed(4) [of repeating_env] d_f d_r failing_first_attempt
      failing_second_attempt repeating_attempts f r
      rnd_d example_run_allowed(4) [of duplicating_env] d_d duplicating_attempts n
    by (intro conjI)
qed

end
